theory Spec2Isabelle
  imports Main "HOL-Library.AList"
begin

section \<open>Text and Python's string operations\<close>

text \<open>
  The script \<^verbatim>\<open>ci_scripts/get_version.py\<close> reads a manifest with Python's
  \<^verbatim>\<open>configparser.ConfigParser\<close> and prints the \<^verbatim>\<open>version\<close> of its
  \<^verbatim>\<open>package\<close> section without its first and last character.

  A Python \<^verbatim>\<open>str\<close> is modelled as a \<^typ>\<open>string\<close>; a \<^typ>\<open>char\<close> stands for a code
  point below 256, so the text of a file is its decoded content over that range. A file
  whose bytes cannot be decoded, and a standard output that cannot be written, are
  outside the model.
\<close>

definition LF :: char where
  "LF = CHR 0x0A"

definition CR :: char where
  "CR = CHR 0x0D"

text \<open>\<^verbatim>\<open>str.isspace\<close> on one code point below 256; the regular expressions' \<^verbatim>\<open>\s\<close>
  is the same class.\<close>

definition isspace :: "char \<Rightarrow> bool" where
  "isspace c = (let n = (of_char c :: nat) in
     (9 \<le> n \<and> n \<le> 13) \<or> (28 \<le> n \<and> n \<le> 32) \<or> n = 133 \<or> n = 160)"

definition lstrip :: "string \<Rightarrow> string" where
  "lstrip s = dropWhile isspace s"

definition rstrip :: "string \<Rightarrow> string" where
  "rstrip s = rev (dropWhile isspace (rev s))"

definition strip :: "string \<Rightarrow> string" where
  "strip s = rstrip (lstrip s)"

definition startswith :: "string \<Rightarrow> string \<Rightarrow> bool" where
  "startswith s prefix = (take (length prefix) s = prefix)"

text \<open>\<^verbatim>\<open>str.lower\<close>: the letters A-Z and the upper-case letters of the range
  192-222 (215, the multiplication sign, apart) move up by 32.\<close>

definition lower_char :: "char \<Rightarrow> char" where
  "lower_char c = (let n = (of_char c :: nat) in
     if (65 \<le> n \<and> n \<le> 90) \<or> (192 \<le> n \<and> n \<le> 222 \<and> n \<noteq> 215)
     then char_of (n + 32) else c)"

definition lower :: "string \<Rightarrow> string" where
  "lower s = map lower_char s"

text \<open>\<^verbatim>\<open>sep.join(parts)\<close>.\<close>

fun join :: "string \<Rightarrow> string list \<Rightarrow> string" where
  "join sep [] = []"
| "join sep [x] = x"
| "join sep (x # y # ys) = x @ sep @ join sep (y # ys)"

text \<open>\<^verbatim>\<open>repr(s)\<close> of a string: the text between quotes, with the quote character, the
  backslash and every character that \<^verbatim>\<open>str.isprintable\<close> refuses escaped. The quote is
  the single one, unless the text has single quotes and no double quote.\<close>

definition isprintable :: "char \<Rightarrow> bool" where
  "isprintable c = (let n = (of_char c :: nat) in
     32 \<le> n \<and> n < 127 \<or> 160 < n \<and> n \<noteq> 173)"

definition hexdigit :: "nat \<Rightarrow> char" where
  "hexdigit n = ''0123456789abcdef'' ! n"

definition repr_char :: "char \<Rightarrow> char \<Rightarrow> string" where
  "repr_char quote c =
     (if c = quote \<or> c = CHR 0x5C then [CHR 0x5C, c]
      else if c = CHR 0x09 then [CHR 0x5C, CHR ''t'']
      else if c = LF then [CHR 0x5C, CHR ''n'']
      else if c = CR then [CHR 0x5C, CHR ''r'']
      else if isprintable c then [c]
      else [CHR 0x5C, CHR ''x'', hexdigit (of_char c div 16), hexdigit (of_char c mod 16)])"

definition repr :: "string \<Rightarrow> string" where
  "repr s =
     (let quote = (if CHR 0x27 \<in> set s \<and> CHR 0x22 \<notin> set s then CHR 0x22 else CHR 0x27)
      in quote # concat (map (repr_char quote) s) @ [quote])"

text \<open>A slice \<^verbatim>\<open>s[start:stop]\<close>: a negative index counts from the end, and both
  indices are clamped to the length, so that no slice raises.\<close>

definition slice_index :: "int \<Rightarrow> nat \<Rightarrow> nat" where
  "slice_index i n = (if i < 0 then nat (max 0 (int n + i)) else min (nat i) n)"

definition py_slice :: "'a list \<Rightarrow> int \<Rightarrow> int \<Rightarrow> 'a list" where
  "py_slice s start stop =
     (let a = slice_index start (length s); b = slice_index stop (length s)
      in take (b - a) (drop a s))"


section \<open>Files\<close>

text \<open>
  The file system maps a path, as the process resolves it, to the text of a file that
  exists and can be read; \<^verbatim>\<open>open\<close> raises \<^verbatim>\<open>OSError\<close> for every other path.
  The exceptions are those of Python and of \<^verbatim>\<open>configparser\<close>.
\<close>

type_synonym path = string

type_synonym filesystem = "(path \<times> string) list"

datatype error =
    OSError
  | KeyError string
  | NoSectionError string
  | NoOptionError string string
  | DuplicateSectionError string nat
  | DuplicateOptionError "string option" string nat
  | MissingSectionHeaderError nat string
  | ParsingError "(nat \<times> string) list"
  | InterpolationSyntaxError string
  | InterpolationMissingOptionError string
  | InterpolationDepthError

definition open_file :: "filesystem \<Rightarrow> path \<Rightarrow> error + string" where
  "open_file fs filename =
     (case map_of fs filename of None \<Rightarrow> Inl OSError | Some content \<Rightarrow> Inr content)"

text \<open>A file opened in text mode translates \<^verbatim>\<open>\r\n\<close> and \<^verbatim>\<open>\r\<close> to \<^verbatim>\<open>\n\<close>, and
  iterating over it yields the lines, each with its terminator.\<close>

fun universal_newlines :: "string \<Rightarrow> string" where
  "universal_newlines [] = []"
| "universal_newlines [c] = (if c = CR then [LF] else [c])"
| "universal_newlines (c # d # cs) =
     (if c = CR \<and> d = LF then LF # universal_newlines cs
      else if c = CR then LF # universal_newlines (d # cs)
      else c # universal_newlines (d # cs))"

fun readlines :: "string \<Rightarrow> string list" where
  "readlines [] = []"
| "readlines (c # cs) =
     (if c = LF then [c] # readlines cs
      else (case readlines cs of [] \<Rightarrow> [[c]] | l # ls \<Rightarrow> (c # l) # ls))"


section \<open>The parser of configparser\<close>

text \<open>
  \<^verbatim>\<open>ConfigParser()\<close> with its default arguments, as the script creates it: the
  delimiters \<^verbatim>\<open>=\<close> and \<^verbatim>\<open>:\<close>, the comment prefixes \<^verbatim>\<open>#\<close> and \<^verbatim>\<open>;\<close>, no inline
  comments, strict, empty lines allowed in values, no option without a value, the
  default section \<^verbatim>\<open>DEFAULT\<close> and \<^verbatim>\<open>BasicInterpolation\<close>.
\<close>

subsection \<open>The regular expressions\<close>

text \<open>
  \<^verbatim>\<open>SECTCRE = \[(?P<header>.+)\]\<close>, matched at the start of the stripped line: the
  greedy group runs to the last closing bracket. The result is the header.
\<close>

definition SECTCRE_match :: "string \<Rightarrow> string option" where
  "SECTCRE_match val =
     (case val of
        [] \<Rightarrow> None
      | c # cs \<Rightarrow>
          if c \<noteq> CHR ''[''  then None
          else (case dropWhile (\<lambda>x. x \<noteq> CHR '']'') (rev cs) of
                  [] \<Rightarrow> None
                | b # hs \<Rightarrow> if hs = [] then None else Some (rev hs)))"

text \<open>
  \<^verbatim>\<open>OPTCRE = (?P<option>.*?)\s*(?P<vi>=|:)\s*(?P<value>.*)$\<close>: the option is the text
  before the first delimiter without the white space that ends it, the value the text
  after that delimiter without the white space that starts it.
\<close>

definition is_delimiter :: "char \<Rightarrow> bool" where
  "is_delimiter c = (c = CHR ''='' \<or> c = CHR '':'')"

definition OPTCRE_match :: "string \<Rightarrow> (string \<times> string) option" where
  "OPTCRE_match val =
     (case dropWhile (\<lambda>c. \<not> is_delimiter c) val of
        [] \<Rightarrow> None
      | vi # after \<Rightarrow>
          Some (rstrip (takeWhile (\<lambda>c. \<not> is_delimiter c) val), lstrip after))"

text \<open>
  \<^verbatim>\<open>_KEYCRE = %\(([^)]+)\)s\<close> of \<^verbatim>\<open>BasicInterpolation\<close>, matched at the start of
  the text. The result is the group and the text after the end of the match.
\<close>

definition KEYCRE_match :: "string \<Rightarrow> (string \<times> string) option" where
  "KEYCRE_match rest =
     (if \<not> startswith rest ''%('' then None
      else let name = takeWhile (\<lambda>c. c \<noteq> CHR '')'') (drop 2 rest);
               after = dropWhile (\<lambda>c. c \<noteq> CHR '')'') (drop 2 rest)
           in if name \<noteq> [] \<and> startswith after '')s'' then Some (name, drop 2 after)
              else None)"


subsection \<open>The state of a parser and of a read\<close>

text \<open>
  A dictionary is an association list: Python keeps the order of insertion. While a
  file is read the value of an option is the list of its lines; they are joined when
  the file ends.
\<close>

type_synonym 'v dict = "(string \<times> 'v) list"

record config =
  sections :: "string dict dict"
  defaults :: "string dict"

definition ConfigParser :: config where
  "ConfigParser = \<lparr>sections = [], defaults = []\<rparr>"

definition default_section :: string where
  "default_section = ''DEFAULT''"

definition comment_prefixes :: "string list" where
  "comment_prefixes = [''#'', '';'']"

definition MAX_INTERPOLATION_DEPTH :: nat where
  "MAX_INTERPOLATION_DEPTH = 10"

definition optionxform :: "string \<Rightarrow> string" where
  "optionxform optionstr = lower optionstr"

text \<open>\<^verbatim>\<open>cursect\<close> refers either to the dictionary of the defaults or to the one of a
  section; the reference is kept as the name of what it points to.\<close>

datatype cursect_ref = DefaultsDict | SectionDict string

record reader =
  r_sections :: "string list dict dict"
  r_defaults :: "string list dict"
  added_sections :: "string list"
  added_options :: "(string option \<times> string) list"
  cursect :: "cursect_ref option"
  sectname :: "string option"
  optname :: "string option"
  indent_level :: nat
  exc :: "(nat \<times> string) list option"

definition new_reader :: reader where
  "new_reader = \<lparr>r_sections = [], r_defaults = [], added_sections = [],
     added_options = [], cursect = None, sectname = None, optname = None,
     indent_level = 0, exc = None\<rparr>"

fun cursect_items :: "reader \<Rightarrow> cursect_ref \<Rightarrow> string list dict" where
  "cursect_items st DefaultsDict = r_defaults st"
| "cursect_items st (SectionDict n) =
     (case map_of (r_sections st) n of None \<Rightarrow> [] | Some d \<Rightarrow> d)"

fun cursect_store :: "cursect_ref \<Rightarrow> string list dict \<Rightarrow> reader \<Rightarrow> reader" where
  "cursect_store DefaultsDict d st = st\<lparr>r_defaults := d\<rparr>"
| "cursect_store (SectionDict n) d st = st\<lparr>r_sections := AList.update n d (r_sections st)\<rparr>"

text \<open>\<^verbatim>\<open>cursect[optname].append(x)\<close>; a key that is not there raises \<^verbatim>\<open>KeyError\<close>.\<close>

definition cursect_append :: "cursect_ref \<Rightarrow> string \<Rightarrow> string \<Rightarrow> reader \<Rightarrow> error + reader" where
  "cursect_append cs k x st =
     (case map_of (cursect_items st cs) k of
        None \<Rightarrow> Inl (KeyError k)
      | Some v \<Rightarrow> Inr (cursect_store cs (AList.update k (v @ [x]) (cursect_items st cs)) st))"

text \<open>The truth value of \<^verbatim>\<open>optname\<close>: \<^verbatim>\<open>None\<close> and the empty string are false.\<close>

definition truthy :: "string option \<Rightarrow> bool" where
  "truthy x = (case x of None \<Rightarrow> False | Some s \<Rightarrow> s \<noteq> [])"

text \<open>\<^verbatim>\<open>_handle_error\<close>: the first call creates the \<^verbatim>\<open>ParsingError\<close>, every call adds
  the line number and the \<^verbatim>\<open>repr\<close> of the line to its list of errors.\<close>

definition handle_error :: "(nat \<times> string) list option \<Rightarrow> nat \<Rightarrow> string \<Rightarrow> (nat \<times> string) list option" where
  "handle_error ex lineno line =
     Some ((case ex of None \<Rightarrow> [] | Some errors \<Rightarrow> errors) @ [(lineno, repr line)])"


subsection \<open>Reading a file\<close>

text \<open>A section header \<^verbatim>\<open>[header]\<close>.\<close>

definition section_header :: "nat \<Rightarrow> string \<Rightarrow> reader \<Rightarrow> error + reader" where
  "section_header lineno header st =
     (if map_of (r_sections st) header \<noteq> None then
        (if header \<in> set (added_sections st) then Inl (DuplicateSectionError header lineno)
         else Inr (st\<lparr>cursect := Some (SectionDict header),
                      added_sections := header # added_sections st,
                      sectname := Some header, optname := None\<rparr>))
      else if header = default_section then
        Inr (st\<lparr>cursect := Some DefaultsDict, sectname := Some header, optname := None\<rparr>)
      else
        Inr (st\<lparr>r_sections := AList.update header [] (r_sections st),
                 cursect := Some (SectionDict header),
                 added_sections := header # added_sections st,
                 sectname := Some header, optname := None\<rparr>))"

text \<open>A line of a section that is not a header: an option, or a line to report when
  the file ends.\<close>

definition option_line :: "nat \<Rightarrow> string \<Rightarrow> string \<Rightarrow> cursect_ref \<Rightarrow> reader \<Rightarrow> error + reader" where
  "option_line lineno line val cs st =
     (case OPTCRE_match val of
        None \<Rightarrow> Inr (st\<lparr>exc := handle_error (exc st) lineno line\<rparr>)
      | Some (option, optval) \<Rightarrow>
          let st1 = (if option = [] then st\<lparr>exc := handle_error (exc st) lineno line\<rparr> else st);
              name = optionxform (rstrip option)
          in if (sectname st1, name) \<in> set (added_options st1)
             then Inl (DuplicateOptionError (sectname st1) name lineno)
             else Inr (cursect_store cs (AList.update name [strip optval] (cursect_items st1 cs))
                        (st1\<lparr>added_options := (sectname st1, name) # added_options st1,
                             optname := Some name\<rparr>)))"

definition full_line_comment :: "string \<Rightarrow> bool" where
  "full_line_comment line = list_ex (\<lambda>prefix. startswith (strip line) prefix) comment_prefixes"

text \<open>One turn of the loop of \<^verbatim>\<open>_read\<close>, on line number \<open>lineno\<close>. With no inline
  comment prefixes, \<^verbatim>\<open>comment_start\<close> is 0 on a comment line and \<^verbatim>\<open>None\<close> elsewhere.\<close>

definition read_line :: "nat \<Rightarrow> string \<Rightarrow> reader \<Rightarrow> error + reader" where
  "read_line lineno line st =
     (let comment_start = (if full_line_comment line then Some (0::nat) else None);
          val = strip (case comment_start of None \<Rightarrow> line | Some n \<Rightarrow> take n line)
      in
      if val = [] then
        (case cursect st of
           None \<Rightarrow> Inr st
         | Some cs \<Rightarrow>
             (case optname st of
                None \<Rightarrow> Inr st
              | Some k \<Rightarrow>
                  if comment_start = None \<and> k \<noteq> [] then cursect_append cs k [] st
                  else Inr st))
      else
        let cur_indent_level = length (takeWhile isspace line);
            st1 = st\<lparr>indent_level := cur_indent_level\<rparr>
        in
        (case cursect st of
           None \<Rightarrow>
             (case SECTCRE_match val of
                Some header \<Rightarrow> section_header lineno header st1
              | None \<Rightarrow> Inl (MissingSectionHeaderError lineno line))
         | Some cs \<Rightarrow>
             if truthy (optname st) \<and> cur_indent_level > indent_level st
             then cursect_append cs (case optname st of None \<Rightarrow> [] | Some k \<Rightarrow> k) val st
             else
               (case SECTCRE_match val of
                  Some header \<Rightarrow> section_header lineno header st1
                | None \<Rightarrow> option_line lineno line val cs st1)))"

fun read_loop :: "nat \<Rightarrow> string list \<Rightarrow> reader \<Rightarrow> error + reader" where
  "read_loop lineno [] st = Inr st"
| "read_loop lineno (line # lines) st =
     (case read_line lineno line st of
        Inl x \<Rightarrow> Inl x
      | Inr st' \<Rightarrow> read_loop (Suc lineno) lines st')"

definition join_options :: "string list dict \<Rightarrow> string dict" where
  "join_options options = map (\<lambda>(name, val). (name, rstrip (join [LF] val))) options"

definition join_multiline_values :: "reader \<Rightarrow> config" where
  "join_multiline_values st =
     \<lparr>sections = map (\<lambda>(section, options). (section, join_options options)) (r_sections st),
      defaults = join_options (r_defaults st)\<rparr>"

text \<open>\<^verbatim>\<open>_read\<close> on the text of a file, for a parser that has read nothing yet: the
  errors collected in \<^verbatim>\<open>e\<close> are raised when the file ends.\<close>

definition ConfigParser_read_fp :: "string \<Rightarrow> error + config" where
  "ConfigParser_read_fp content =
     (case read_loop 1 (readlines (universal_newlines content)) new_reader of
        Inl x \<Rightarrow> Inl x
      | Inr st \<Rightarrow>
          (case exc st of
             Some errors \<Rightarrow> Inl (ParsingError errors)
           | None \<Rightarrow> Inr (join_multiline_values st)))"

text \<open>\<^verbatim>\<open>read(filename)\<close> with one file name: a file that cannot be opened is passed
  over and the parser stays as it was. The script reads once, into a new parser, so a
  file that opens is read from \<^const>\<open>new_reader\<close>.\<close>

definition ConfigParser_read :: "config \<Rightarrow> filesystem \<Rightarrow> path \<Rightarrow> error + config" where
  "ConfigParser_read config fs filename =
     (case open_file fs filename of
        Inl x \<Rightarrow> (if x = OSError then Inr config else Inl x)
      | Inr content \<Rightarrow> ConfigParser_read_fp content)"


subsection \<open>Looking a value up\<close>

definition has_section :: "config \<Rightarrow> string \<Rightarrow> bool" where
  "has_section config section = (map_of (sections config) section \<noteq> None)"

definition has_option :: "config \<Rightarrow> string \<Rightarrow> string \<Rightarrow> bool" where
  "has_option config section option =
     (if section = [] \<or> section = default_section
      then map_of (defaults config) (optionxform option) \<noteq> None
      else (case map_of (sections config) section of
              None \<Rightarrow> False
            | Some d \<Rightarrow> map_of d (optionxform option) \<noteq> None
                        \<or> map_of (defaults config) (optionxform option) \<noteq> None))"

text \<open>The chain of the section's dictionary and the defaults, and a lookup in it.\<close>

definition unify_values :: "config \<Rightarrow> string \<Rightarrow> error + (string dict \<times> string dict)" where
  "unify_values config section =
     (case map_of (sections config) section of
        Some sectiondict \<Rightarrow> Inr (sectiondict, defaults config)
      | None \<Rightarrow>
          if section \<noteq> default_section then Inl (NoSectionError section)
          else Inr ([], defaults config))"

definition chain_lookup :: "(string dict \<times> string dict) \<Rightarrow> string \<Rightarrow> string option" where
  "chain_lookup d k = (case map_of (fst d) k of Some v \<Rightarrow> Some v | None \<Rightarrow> map_of (snd d) k)"


subsection \<open>Interpolation\<close>

text \<open>
  \<^verbatim>\<open>BasicInterpolation._interpolate_some\<close>: the value is copied to \<^verbatim>\<open>accum\<close>, with
  \<^verbatim>\<open>%%\<close> replaced by a percent sign and \<^verbatim>\<open>%(name)s\<close> by the value of the option
  \<^verbatim>\<open>name\<close>, which is interpolated in its turn one level deeper.
\<close>

lemma KEYCRE_match_shorter:
  "KEYCRE_match rest1 = Some (g, rest2) \<Longrightarrow> length rest2 < length rest1"
proof -
  assume a: "KEYCRE_match rest1 = Some (g, rest2)"
  let ?t = "drop 2 rest1"
  from a have s: "startswith rest1 ''%(''"
    by (auto simp: KEYCRE_match_def split: if_splits)
  from a have r: "rest2 = drop 2 (dropWhile (\<lambda>c. c \<noteq> CHR '')'') ?t)"
    by (auto simp: KEYCRE_match_def Let_def split: if_splits)
  from s have l: "2 \<le> length rest1"
    by (cases rest1; cases "tl rest1") (auto simp: startswith_def)
  have "length rest2 \<le> length ?t"
    unfolding r using length_dropWhile_le[of "\<lambda>c. c \<noteq> CHR '')''" ?t] by simp
  with l show ?thesis by simp
qed

lemma drop2_dropWhile_shorter:
  "rest \<noteq> [] \<Longrightarrow> length (dropWhile P rest) - 2 < length rest"
  using length_dropWhile_le[of P rest] by (cases rest) auto

lemma KEYCRE_match_dropWhile_shorter:
  "KEYCRE_match (dropWhile P rest) = Some (g, rest2) \<Longrightarrow> length rest2 < length rest"
  using KEYCRE_match_shorter[of "dropWhile P rest" g rest2] length_dropWhile_le[of P rest]
  by simp

function interpolate_some ::
    "(string dict \<times> string dict) \<Rightarrow> string list \<Rightarrow> string \<Rightarrow> nat \<Rightarrow> error + string list"
  and interpolate_while ::
    "(string dict \<times> string dict) \<Rightarrow> string list \<Rightarrow> string \<Rightarrow> nat \<Rightarrow> error + string list"
where
  "interpolate_some m accum rest depth =
     (if depth > MAX_INTERPOLATION_DEPTH then Inl InterpolationDepthError
      else interpolate_while m accum rest depth)"
| "interpolate_while m accum rest depth =
     (if rest = [] then Inr accum
      else if CHR ''%'' \<notin> set rest then Inr (accum @ [rest])
      else
        let lead = takeWhile (\<lambda>c. c \<noteq> CHR ''%'') rest;
            accum1 = (if lead \<noteq> [] then accum @ [lead] else accum);
            rest1 = dropWhile (\<lambda>c. c \<noteq> CHR ''%'') rest;
            c = py_slice rest1 1 2
        in
        if c = ''%'' then interpolate_while m (accum1 @ [''%'']) (drop 2 rest1) depth
        else if c = ''('' then
          (case KEYCRE_match rest1 of
             None \<Rightarrow> Inl (InterpolationSyntaxError rest1)
           | Some (group1, rest2) \<Rightarrow>
               (case chain_lookup m (optionxform group1) of
                  None \<Rightarrow> Inl (InterpolationMissingOptionError (optionxform group1))
                | Some v \<Rightarrow>
                    if CHR ''%'' \<in> set v then
                      (case interpolate_some m accum1 v (depth + 1) of
                         Inl x \<Rightarrow> Inl x
                       | Inr accum2 \<Rightarrow> interpolate_while m accum2 rest2 depth)
                    else interpolate_while m (accum1 @ [v]) rest2 depth))
        else Inl (InterpolationSyntaxError rest1))"
  by pat_completeness auto


text \<open>The depth grows by one at each nested call and stops the recursion above
  \<^const>\<open>MAX_INTERPOLATION_DEPTH\<close>; inside one call the text left to read shrinks.\<close>

termination interpolate_some
  by (relation "measures
   [\<lambda>x. case x of
           Inl (m, accum, rest, depth) \<Rightarrow>
             if depth > MAX_INTERPOLATION_DEPTH then 0
             else 2 * (Suc MAX_INTERPOLATION_DEPTH - depth)
         | Inr (m, accum, rest, depth) \<Rightarrow>
             if depth > MAX_INTERPOLATION_DEPTH then 1
             else 2 * (Suc MAX_INTERPOLATION_DEPTH - depth),
    \<lambda>x. case x of
           Inl (m, accum, rest, depth) \<Rightarrow> Suc (length rest)
         | Inr (m, accum, rest, depth) \<Rightarrow> length rest]")
     (auto simp: drop2_dropWhile_shorter KEYCRE_match_dropWhile_shorter)

definition before_get :: "(string dict \<times> string dict) \<Rightarrow> string \<Rightarrow> error + string" where
  "before_get d val =
     (case interpolate_some d [] val 1 of
        Inl x \<Rightarrow> Inl x
      | Inr L \<Rightarrow> Inr (concat L))"

text \<open>\<^verbatim>\<open>get(section, option)\<close>, with \<^verbatim>\<open>raw=False\<close> and no fallback.\<close>

definition ConfigParser_get :: "config \<Rightarrow> string \<Rightarrow> string \<Rightarrow> error + string" where
  "ConfigParser_get config section option =
     (case unify_values config section of
        Inl x \<Rightarrow> Inl x
      | Inr d \<Rightarrow>
          (case chain_lookup d (optionxform option) of
             None \<Rightarrow> Inl (NoOptionError (optionxform option) section)
           | Some val \<Rightarrow> before_get d val))"

text \<open>\<^verbatim>\<open>config[key]\<close> gives the proxy of a section, which is known by the section's
  name, and \<^verbatim>\<open>proxy[key]\<close> the value of an option of that section.\<close>

definition ConfigParser_getitem :: "config \<Rightarrow> string \<Rightarrow> error + string" where
  "ConfigParser_getitem config key =
     (if key \<noteq> default_section \<and> \<not> has_section config key then Inl (KeyError key)
      else Inr key)"

definition SectionProxy_getitem :: "config \<Rightarrow> string \<Rightarrow> string \<Rightarrow> error + string" where
  "SectionProxy_getitem config name key =
     (if \<not> has_option config name key then Inl (KeyError key)
      else ConfigParser_get config name key)"


section \<open>The script\<close>

definition CONFIG_FILE :: path where
  "CONFIG_FILE = ''Cargo.toml''"

text \<open>\<^verbatim>\<open>get_version(config_file)\<close>: a new parser reads \<^verbatim>\<open>CONFIG_FILE\<close>, then
  \<^verbatim>\<open>config["package"]["version"]\<close> is returned.\<close>

definition get_version :: "filesystem \<Rightarrow> path \<Rightarrow> error + string" where
  "get_version fs config_file =
     (case ConfigParser_read ConfigParser fs CONFIG_FILE of
        Inl x \<Rightarrow> Inl x
      | Inr config \<Rightarrow>
          (case ConfigParser_getitem config ''package'' of
             Inl x \<Rightarrow> Inl x
           | Inr proxy \<Rightarrow> SectionProxy_getitem config proxy ''version''))"

text \<open>
  What a run of the script leaves: the text written to standard output, the exit status
  of the process, and the exception that ended it, if one did. An exception that nothing
  catches ends the process with status 1 before anything is printed.
\<close>

record outcome =
  stdout :: string
  exit_status :: nat
  uncaught :: "error option"

definition main :: "filesystem \<Rightarrow> string list \<Rightarrow> outcome" where
  "main fs argv =
     (case (if length argv > 1 then get_version fs (argv ! 1) else get_version fs CONFIG_FILE) of
        Inl x \<Rightarrow> \<lparr>stdout = [], exit_status = 1, uncaught = Some x\<rparr>
      | Inr version \<Rightarrow>
          \<lparr>stdout = py_slice version 1 (- 1) @ [LF], exit_status = 0, uncaught = None\<rparr>)"


section \<open>The classes of errors\<close>

text \<open>
  \<^verbatim>\<open>isinstance(x, configparser.ParsingError)\<close>: the class \<^verbatim>\<open>ParsingError\<close> and its
  subclass \<^verbatim>\<open>MissingSectionHeaderError\<close>. The errors for a section or an option given
  twice are not of that class.
\<close>

fun isinstance_ParsingError :: "error \<Rightarrow> bool" where
  "isinstance_ParsingError (ParsingError errors) = True"
| "isinstance_ParsingError (MissingSectionHeaderError lineno line) = True"
| "isinstance_ParsingError _ = False"

fun duplicate_error :: "error \<Rightarrow> bool" where
  "duplicate_error (DuplicateSectionError section lineno) = True"
| "duplicate_error (DuplicateOptionError section option lineno) = True"
| "duplicate_error _ = False"

text \<open>The errors that \<^verbatim>\<open>_read\<close> raises.\<close>

definition read_error :: "error \<Rightarrow> bool" where
  "read_error x = (isinstance_ParsingError x \<or> duplicate_error x)"

text \<open>The invariant of a read: an option name that is set and not empty is a key of the
  dictionary that \<^verbatim>\<open>cursect\<close> refers to, so that appending a line to its value finds it.\<close>

definition optname_present :: "reader \<Rightarrow> bool" where
  "optname_present st =
     (case optname st of
        None \<Rightarrow> True
      | Some k \<Rightarrow>
          k = [] \<or> (case cursect st of
                      None \<Rightarrow> False
                    | Some cs \<Rightarrow> map_of (cursect_items st cs) k \<noteq> None))"


section \<open>The expected syntax\<close>

text \<open>
  The section/key-value syntax that a manifest is expected to have, stated on the lines of
  the file and apart from the parser: a line is blank, a comment, a section header, an
  option (a key that is not empty, a delimiter, a value) inside a section, or it continues
  the value of the option before it, being indented deeper than that option. The flag tells
  whether a section has been opened, and the number is the indentation of the option that
  a deeper line would continue.
\<close>

fun conforms :: "bool \<Rightarrow> nat option \<Rightarrow> string list \<Rightarrow> bool" where
  "conforms in_section cur [] = True"
| "conforms in_section cur (line # lines) =
     (if strip line = [] \<or> full_line_comment line then conforms in_section cur lines
      else
        let indent = length (takeWhile isspace line) in
        if in_section \<and> (case cur of None \<Rightarrow> False | Some n \<Rightarrow> indent > n)
        then conforms in_section cur lines
        else if SECTCRE_match (strip line) \<noteq> None then conforms True None lines
        else if \<not> in_section then False
        else (case OPTCRE_match (strip line) of
                None \<Rightarrow> False
              | Some (option, optval) \<Rightarrow>
                  if option = [] then False else conforms True (Some indent) lines))"

definition well_formed :: "string \<Rightarrow> bool" where
  "well_formed content = conforms False None (readlines (universal_newlines content))"

text \<open>What the state of a read has in common with the state of the check of the syntax.\<close>

definition follows :: "bool \<Rightarrow> nat option \<Rightarrow> reader \<Rightarrow> bool" where
  "follows in_section cur st =
     ((in_section \<longleftrightarrow> cursect st \<noteq> None)
      \<and> (case cur of
           None \<Rightarrow> \<not> truthy (optname st)
         | Some n \<Rightarrow> truthy (optname st) \<and> indent_level st = n))"


section \<open>A version line in the text of a manifest\<close>

text \<open>
  The conditions on the lines of a file under which the raw value of \<^verbatim>\<open>version\<close> can be
  read off its text: a header \<^verbatim>\<open>[package]\<close>, no other header before the line of
  \<^verbatim>\<open>version\<close>, and no line that continues that line.
\<close>

text \<open>A line that is not indented and is the header of the section \<open>name\<close>.\<close>

definition opens_section :: "string \<Rightarrow> string \<Rightarrow> bool" where
  "opens_section line name =
     (takeWhile isspace line = [] \<and> SECTCRE_match (strip line) = Some name)"

text \<open>A line that is not indented and is an option line giving \<open>key\<close> the value
  \<open>val\<close>.\<close>

definition assigns :: "string \<Rightarrow> string \<Rightarrow> string \<Rightarrow> bool" where
  "assigns line key val =
     (takeWhile isspace line = [] \<and> \<not> full_line_comment line
      \<and> SECTCRE_match (strip line) = None
      \<and> (case OPTCRE_match (strip line) of
           None \<Rightarrow> False
         | Some (option, optval) \<Rightarrow> optionxform (rstrip option) = key \<and> strip optval = val))"

text \<open>The lines after an option of which none continues its value: the first that is
  neither blank nor a comment, if there is one, is not indented.\<close>

fun no_continuation :: "string list \<Rightarrow> bool" where
  "no_continuation [] = True"
| "no_continuation (line # lines) =
     (if strip line = [] \<or> full_line_comment line then no_continuation lines
      else takeWhile isspace line = [])"

text \<open>The lines that a read holds for \<^verbatim>\<open>version\<close> in the section \<^verbatim>\<open>package\<close>, and
  three states of a read: inside that section; just after the line of \<^verbatim>\<open>version\<close>,
  with \<open>k\<close> blank lines appended to the value \<open>q\<close>; and any later state, where nothing
  can reach the value any more.\<close>

definition version_value :: "reader \<Rightarrow> string list option" where
  "version_value st =
     (case map_of (r_sections st) ''package'' of
        None \<Rightarrow> None
      | Some d \<Rightarrow> map_of d ''version'')"

definition in_package :: "reader \<Rightarrow> bool" where
  "in_package st =
     (cursect st = Some (SectionDict ''package'') \<and> sectname st = Some ''package''
      \<and> ''package'' \<in> set (added_sections st)
      \<and> map_of (r_sections st) ''package'' \<noteq> None)"

definition version_kept :: "reader \<Rightarrow> bool" where
  "version_kept st =
     (''package'' \<in> set (added_sections st)
      \<and> (Some ''package'', ''version'') \<in> set (added_options st)
      \<and> (cursect st = Some (SectionDict ''package'') \<longrightarrow>
            sectname st = Some ''package'' \<and> optname st \<noteq> Some ''version''))"

definition version_open :: "string \<Rightarrow> nat \<Rightarrow> reader \<Rightarrow> bool" where
  "version_open q k st =
     (in_package st \<and> optname st = Some ''version'' \<and> indent_level st = 0
      \<and> (Some ''package'', ''version'') \<in> set (added_options st)
      \<and> version_value st = Some (q # replicate k []))"


section \<open>Manifests used as examples\<close>

text \<open>The texts of some manifests, at which the theorems below are evaluated.\<close>

definition manifest_1_0_0 :: string where
  \<open>manifest_1_0_0 = ''[package]\<newline>version = "1.0.0"\<newline>''\<close>

definition manifest_alpha :: string where
  \<open>manifest_alpha = ''[package]\<newline>name = "cifra"\<newline>version = "0.0.1-alpha"\<newline>''\<close>

definition manifest_percent :: string where
  \<open>manifest_percent = ''[package]\<newline>version = "1.0%%"\<newline>''\<close>

definition manifest_default_version :: string where
  \<open>manifest_default_version =
     ''[DEFAULT]\<newline>version = "9.9.9"\<newline>[package]\<newline>name = "cifra"\<newline>''\<close>

definition manifest_no_package :: string where
  \<open>manifest_no_package = ''[dependencies]\<newline>version = "1.0.0"\<newline>''\<close>

definition manifest_no_version :: string where
  \<open>manifest_no_version = ''[package]\<newline>name = "cifra"\<newline>''\<close>

definition manifest_unquoted :: string where
  \<open>manifest_unquoted = ''[package]\<newline>version = 1.0.0\<newline>''\<close>

definition manifest_empty_quotes :: string where
  \<open>manifest_empty_quotes = ''[package]\<newline>version = ""\<newline>''\<close>

definition manifest_one_char :: string where
  \<open>manifest_one_char = ''[package]\<newline>version = 7\<newline>''\<close>

definition manifest_no_value :: string where
  \<open>manifest_no_value = ''[package]\<newline>version =\<newline>''\<close>

definition manifest_two_bins :: string where
  \<open>manifest_two_bins =
     ''[package]\<newline>name = "cifra"\<newline>version = "1.0.0"\<newline>\<newline>[[bin]]\<newline>name = "cifra"\<newline>\<newline>[[bin]]\<newline>name = "dictionary"\<newline>''\<close>

definition manifest_old_mac :: string where
  \<open>manifest_old_mac =
     ''# manifest'' @ [CR] @ ''  [package]  '' @ [CR] @ ''  name = "cifra"'' @ [CR]
     @ ''  Version =   "1.0.0"  '' @ [CR] @ [CR] @ ''[dependencies]'' @ [CR]
     @ ''rand = "0.8"'' @ [CR]\<close>

definition manifest_reported_then_duplicate :: string where
  \<open>manifest_reported_then_duplicate = ''[package]\<newline>version\<newline>[package]\<newline>''\<close>

definition manifest_no_delimiter_old_mac :: string where
  \<open>manifest_no_delimiter_old_mac = ''  [package]  '' @ [CR] @ ''  version  '' @ [CR]\<close>

definition manifest_no_header :: string where
  \<open>manifest_no_header = ''version = "1.0.0"\<newline>''\<close>

definition manifest_cifra :: string where
  \<open>manifest_cifra =
     ''# cifra\<newline>[package]\<newline>name = "cifra"\<newline>version = "1.0.0"\<newline>authors = ["dante"]\<newline>\<newline>[dependencies]\<newline>clap = "2.33"\<newline>''\<close>


section \<open>The errors that reading raises\<close>

lemma read_error_simps [simp]:
  "read_error (ParsingError errors)"
  "read_error (MissingSectionHeaderError lineno line)"
  "read_error (DuplicateSectionError section lineno)"
  "read_error (DuplicateOptionError sect option lineno)"
  "\<not> read_error (KeyError k)"
  by (simp_all add: read_error_def)

lemma cursect_items_store [simp]: "cursect_items (cursect_store cs d st) cs = d"
  by (cases cs) (simp_all add: update_conv')

lemma cursect_store_fields [simp]:
  "cursect (cursect_store cs d st) = cursect st"
  "optname (cursect_store cs d st) = optname st"
  "exc (cursect_store cs d st) = exc st"
  by (cases cs; simp)+

lemma cursect_items_indent [simp]:
  "cursect_items (st\<lparr>indent_level := n\<rparr>) cs = cursect_items st cs"
  by (cases cs) simp_all

lemma cursect_items_exc [simp]:
  "cursect_items (st\<lparr>exc := x\<rparr>) cs = cursect_items st cs"
  by (cases cs) simp_all

lemma cursect_items_added_options [simp]:
  "cursect_items (st\<lparr>added_options := x\<rparr>) cs = cursect_items st cs"
  by (cases cs) simp_all

lemma cursect_items_optname [simp]:
  "cursect_items (st\<lparr>optname := x\<rparr>) cs = cursect_items st cs"
  by (cases cs) simp_all

lemma cursect_append_present:
  assumes "optname_present st" "cursect st = Some cs" "optname st = Some k" "k \<noteq> []"
  shows "\<exists>st'. cursect_append cs k x st = Inr st' \<and> optname_present st' \<and> exc st' = exc st"
proof -
  from assms obtain v where v: "map_of (cursect_items st cs) k = Some v"
    by (auto simp: optname_present_def)
  then show ?thesis using assms
    by (simp add: cursect_append_def optname_present_def update_conv')
qed

lemma section_header_present:
  "section_header lineno header st = Inr st' \<Longrightarrow> optname_present st' \<and> exc st' = exc st"
  by (auto simp: section_header_def optname_present_def split: if_splits)

lemma section_header_error:
  "section_header lineno header st = Inl x \<Longrightarrow> read_error x"
  by (auto simp: section_header_def split: if_splits)

lemma option_line_present:
  "option_line lineno line val cs st = Inr st' \<Longrightarrow> cursect st = Some cs \<Longrightarrow> optname_present st
   \<Longrightarrow> optname_present st'"
  by (auto simp: option_line_def optname_present_def Let_def update_conv'
      split: option.splits prod.splits if_splits)

lemma option_line_error:
  "option_line lineno line val cs st = Inl x \<Longrightarrow> read_error x"
  by (auto simp: option_line_def Let_def split: option.splits prod.splits if_splits)

lemma optname_present_indent [simp]:
  "optname_present (st\<lparr>indent_level := n\<rparr>) = optname_present st"
  by (simp add: optname_present_def split: option.splits)

lemma read_line_present:
  assumes "optname_present st" "read_line lineno line st = Inr st'"
  shows "optname_present st'"
proof (cases "cursect st")
  case None
  with assms show ?thesis
    by (auto simp: read_line_def Let_def dest: section_header_present
        split: option.splits if_splits)
next
  case cs: (Some cs)
  show ?thesis
  proof (cases "optname st")
    case None
    with cs assms show ?thesis
      by (auto simp: read_line_def Let_def truthy_def
          dest: section_header_present option_line_present
          split: option.splits if_splits)
  next
    case (Some k)
    show ?thesis
    proof (cases "k = []")
      case True
      with Some cs assms show ?thesis
        by (auto simp: read_line_def Let_def truthy_def
            dest: section_header_present option_line_present
            split: option.splits if_splits)
    next
      case False
      have app: "cursect_append cs k x st = Inr st2 \<Longrightarrow> optname_present st2" for x st2
        using cursect_append_present[OF assms(1) cs Some False, of x] by auto
      from Some cs False assms show ?thesis
        by (auto simp: read_line_def Let_def truthy_def
            dest: section_header_present option_line_present app
            split: option.splits if_splits)
    qed
  qed
qed

lemma read_line_error:
  assumes "optname_present st" "read_line lineno line st = Inl x"
  shows "read_error x"
proof (cases "cursect st")
  case None
  with assms show ?thesis
    by (auto simp: read_line_def Let_def dest: section_header_error
        split: option.splits if_splits)
next
  case cs: (Some cs)
  show ?thesis
  proof (cases "optname st")
    case None
    with cs assms show ?thesis
      by (auto simp: read_line_def Let_def truthy_def
          dest: section_header_error option_line_error
          split: option.splits if_splits)
  next
    case (Some k)
    show ?thesis
    proof (cases "k = []")
      case True
      with Some cs assms show ?thesis
        by (auto simp: read_line_def Let_def truthy_def
            dest: section_header_error option_line_error
            split: option.splits if_splits)
    next
      case False
      have app: "cursect_append cs k x st \<noteq> Inl y" for x y
        using cursect_append_present[OF assms(1) cs Some False, of x] by auto
      from Some cs False assms show ?thesis
        by (auto simp: read_line_def Let_def truthy_def app
            dest: section_header_error option_line_error
            split: option.splits if_splits)
    qed
  qed
qed

lemma read_loop_error:
  "optname_present st \<Longrightarrow> read_loop lineno lines st = Inl x \<Longrightarrow> read_error x"
proof (induction lines arbitrary: lineno st)
  case Nil
  then show ?case by simp
next
  case (Cons line lines)
  show ?case
  proof (cases "read_line lineno line st")
    case (Inl y)
    with Cons.prems show ?thesis by (auto dest: read_line_error)
  next
    case (Inr st')
    with Cons.prems have "optname_present st'" by (auto dest: read_line_present)
    with Cons.IH[of st' "Suc lineno"] Cons.prems Inr show ?thesis by simp
  qed
qed

lemma ConfigParser_read_fp_error:
  "ConfigParser_read_fp content = Inl x \<Longrightarrow> read_error x"
proof -
  assume a: "ConfigParser_read_fp content = Inl x"
  have p: "optname_present new_reader"
    by (simp add: optname_present_def new_reader_def)
  show ?thesis
  proof (cases "read_loop 1 (readlines (universal_newlines content)) new_reader")
    case (Inl y)
    with a have "y = x" by (simp add: ConfigParser_read_fp_def)
    with Inl p show ?thesis by (auto dest: read_loop_error)
  next
    case (Inr st)
    with a show ?thesis
      by (auto simp: ConfigParser_read_fp_def split: option.splits)
  qed
qed


section \<open>A reported line makes the read fail\<close>

text \<open>Once a line has been reported, the error stays until the file ends, where it is
  raised unless another error ends the read before.\<close>

lemma cursect_append_exc:
  "cursect_append cs k x st = Inr st' \<Longrightarrow> exc st' = exc st"
  by (auto simp: cursect_append_def split: option.splits)

lemma section_header_exc:
  "section_header lineno header st = Inr st' \<Longrightarrow> exc st' = exc st"
  by (auto simp: section_header_def split: if_splits)

lemma option_line_exc:
  "option_line lineno line val cs st = Inr st' \<Longrightarrow> exc st \<noteq> None \<Longrightarrow> exc st' \<noteq> None"
  by (auto simp: option_line_def Let_def handle_error_def
      split: option.splits prod.splits if_splits)

lemma read_line_exc:
  "read_line lineno line st = Inr st' \<Longrightarrow> exc st \<noteq> None \<Longrightarrow> exc st' \<noteq> None"
  by (auto simp: read_line_def Let_def
      dest!: cursect_append_exc section_header_exc option_line_exc
      split: option.splits if_splits)

lemma read_loop_exc:
  "read_loop lineno lines st = Inr st' \<Longrightarrow> exc st \<noteq> None \<Longrightarrow> exc st' \<noteq> None"
proof (induction lines arbitrary: lineno st)
  case Nil
  then show ?case by simp
next
  case (Cons line lines)
  then show ?case
    by (auto split: sum.splits dest: read_line_exc)
qed


section \<open>The parser against the expected syntax\<close>

text \<open>
  A file that does not have the expected syntax makes the read fail; a file that has it
  makes the read fail only for a section or an option given twice.
\<close>

lemma rstrip_rstrip: "rstrip (rstrip s) = rstrip s"
  by (simp add: rstrip_def)

lemma OPTCRE_match_option:
  "OPTCRE_match val = Some (option, optval) \<Longrightarrow> rstrip option = option"
  by (auto simp: OPTCRE_match_def rstrip_rstrip split: list.splits)

lemma optionxform_Nil: "optionxform s = [] \<longleftrightarrow> s = []"
  by (simp add: optionxform_def lower_def)

lemma cursect_store_more_fields [simp]:
  "indent_level (cursect_store cs d st) = indent_level st"
  "sectname (cursect_store cs d st) = sectname st"
  "added_sections (cursect_store cs d st) = added_sections st"
  "added_options (cursect_store cs d st) = added_options st"
  by (cases cs; simp)+

lemma cursect_append_fields:
  "cursect_append cs k x st = Inr st' \<Longrightarrow>
   cursect st' = cursect st \<and> optname st' = optname st \<and> indent_level st' = indent_level st"
  by (cases cs) (auto simp: cursect_append_def split: option.splits)

lemma cursect_append_follows:
  "cursect_append cs k x st = Inr st' \<Longrightarrow> follows s c st \<Longrightarrow> follows s c st'"
  by (drule cursect_append_fields) (simp add: follows_def split: option.splits)

lemma section_header_follows:
  "section_header lineno header st = Inr st' \<Longrightarrow> follows True None st'"
  by (auto simp: section_header_def follows_def truthy_def split: if_splits)

lemma strip_Nil [simp]: "strip [] = []"
  by (simp add: strip_def lstrip_def rstrip_def)

lemma read_line_blank_eq:
  assumes "strip line = [] \<or> full_line_comment line"
  shows "read_line lineno line st =
     (case cursect st of
        None \<Rightarrow> Inr st
      | Some cs \<Rightarrow>
          (case optname st of
             None \<Rightarrow> Inr st
           | Some k \<Rightarrow>
               if \<not> full_line_comment line \<and> k \<noteq> [] then cursect_append cs k [] st
               else Inr st))"
  using assms by (auto simp: read_line_def split: option.splits)

lemma read_line_text_eq:
  assumes "strip line \<noteq> []" "\<not> full_line_comment line"
  shows "read_line lineno line st =
     (case cursect st of
        None \<Rightarrow>
          (case SECTCRE_match (strip line) of
             Some header \<Rightarrow>
               section_header lineno header (st\<lparr>indent_level := length (takeWhile isspace line)\<rparr>)
           | None \<Rightarrow> Inl (MissingSectionHeaderError lineno line))
      | Some cs \<Rightarrow>
          if truthy (optname st) \<and> length (takeWhile isspace line) > indent_level st
          then cursect_append cs (case optname st of None \<Rightarrow> [] | Some k \<Rightarrow> k) (strip line) st
          else
            (case SECTCRE_match (strip line) of
               Some header \<Rightarrow>
                 section_header lineno header
                   (st\<lparr>indent_level := length (takeWhile isspace line)\<rparr>)
             | None \<Rightarrow>
                 option_line lineno line (strip line) cs
                   (st\<lparr>indent_level := length (takeWhile isspace line)\<rparr>)))"
  using assms by (auto simp: read_line_def Let_def split: option.splits)

lemma read_line_blank_follows:
  assumes "strip line = [] \<or> full_line_comment line"
    and "read_line lineno line st = Inr st'" and "follows s c st"
  shows "follows s c st'"
  using assms(2,3) unfolding read_line_blank_eq [OF assms(1)]
  by (auto dest: cursect_append_follows split: option.splits if_splits)

lemma option_line_follows:
  assumes "option_line lineno line val cs st = Inr st'" "cursect st = Some cs"
    and "OPTCRE_match val = Some (option, optval)" "option \<noteq> []"
  shows "follows True (Some (indent_level st)) st'"
proof -
  have "rstrip option \<noteq> []" using assms(3,4) by (simp add: OPTCRE_match_option)
  then have "optionxform (rstrip option) \<noteq> []" by (simp add: optionxform_Nil)
  with assms show ?thesis
    by (auto simp: option_line_def Let_def follows_def truthy_def split: if_splits)
qed

lemma option_line_reported:
  assumes "option_line lineno line val cs st = Inr st'"
    and "OPTCRE_match val = None \<or> (\<exists>optval. OPTCRE_match val = Some ([], optval))"
  shows "exc st' \<noteq> None"
  using assms
  by (auto simp: option_line_def Let_def handle_error_def split: if_splits)

lemma not_conforms_reported:
  "\<not> conforms s c lines \<Longrightarrow> follows s c st \<Longrightarrow> read_loop lineno lines st = Inr st'
   \<Longrightarrow> exc st' \<noteq> None"
proof (induction lines arbitrary: s c st lineno)
  case Nil
  then show ?case by simp
next
  case (Cons line lines)
  from Cons.prems(3) obtain st1 where
    s1: "read_line lineno line st = Inr st1" and s2: "read_loop (Suc lineno) lines st1 = Inr st'"
    by (auto split: sum.splits)
  show ?case
  proof (cases "strip line = [] \<or> full_line_comment line")
    case True
    with Cons.prems(1) have "\<not> conforms s c lines" by auto
    moreover have "follows s c st1" using read_line_blank_follows [OF True s1 Cons.prems(2)] .
    ultimately show ?thesis using Cons.IH s2 by blast
  next
    case False
    then have t: "strip line \<noteq> []" "\<not> full_line_comment line" by auto
    let ?i = "length (takeWhile isspace line)"
    note eq = read_line_text_eq [OF t, of lineno st]
    show ?thesis
    proof (cases "s \<and> (case c of None \<Rightarrow> False | Some n \<Rightarrow> ?i > n)")
      case True
      with Cons.prems(1) False have nc: "\<not> conforms s c lines" by (auto simp: Let_def)
      from True Cons.prems(2) obtain cs where
        cs: "cursect st = Some cs" and tr: "truthy (optname st)" and il: "?i > indent_level st"
        by (auto simp: follows_def split: option.splits)
      with s1 eq have "cursect_append cs (case optname st of None \<Rightarrow> [] | Some k \<Rightarrow> k) (strip line) st = Inr st1"
        by simp
      then have "follows s c st1" using Cons.prems(2) by (rule cursect_append_follows)
      with nc s2 Cons.IH show ?thesis by blast
    next
      case ncont: False
      then have pc: "\<not> (cursect st \<noteq> None \<and> truthy (optname st) \<and> ?i > indent_level st)"
        using Cons.prems(2) by (auto simp: follows_def split: option.splits)
      show ?thesis
      proof (cases "SECTCRE_match (strip line)")
        case (Some header)
        with Cons.prems(1) False ncont have nc: "\<not> conforms True None lines"
          by (auto simp: Let_def)
        from s1 eq Some pc have "section_header lineno header (st\<lparr>indent_level := ?i\<rparr>) = Inr st1"
          by (auto split: option.splits if_splits)
        then have "follows True None st1" by (rule section_header_follows)
        with nc s2 Cons.IH show ?thesis by blast
      next
        case None
        show ?thesis
        proof (cases "cursect st")
          case cn: None
          with s1 eq None show ?thesis by simp
        next
          case (Some cs)
          then have ins: s using Cons.prems(2) by (simp add: follows_def)
          from s1 eq None Some pc have
            ol: "option_line lineno line (strip line) cs (st\<lparr>indent_level := ?i\<rparr>) = Inr st1"
            by (auto split: if_splits)
          show ?thesis
          proof (cases "OPTCRE_match (strip line) = None
              \<or> (\<exists>optval. OPTCRE_match (strip line) = Some ([], optval))")
            case True
            with ol have "exc st1 \<noteq> None" by (rule option_line_reported)
            with s2 show ?thesis by (rule read_loop_exc)
          next
            case False
            then obtain option optval where
              m: "OPTCRE_match (strip line) = Some (option, optval)" and ne: "option \<noteq> []"
              by (cases "OPTCRE_match (strip line)") auto
            from Cons.prems(1) t ncont None ins m ne have nc: "\<not> conforms True (Some ?i) lines"
              by (auto simp: Let_def)
            have "follows True (Some (indent_level (st\<lparr>indent_level := ?i\<rparr>))) st1"
              using ol _ m ne by (rule option_line_follows) (simp add: Some)
            then have "follows True (Some ?i) st1" by simp
            with nc s2 Cons.IH show ?thesis by blast
          qed
        qed
      qed
    qed
  qed
qed

lemma not_well_formed_rejected:
  assumes "\<not> well_formed content"
  shows "\<exists>x. ConfigParser_read_fp content = Inl x \<and> read_error x"
proof (cases "read_loop 1 (readlines (universal_newlines content)) new_reader")
  case (Inl x)
  then have "ConfigParser_read_fp content = Inl x" by (simp add: ConfigParser_read_fp_def)
  then show ?thesis using ConfigParser_read_fp_error by blast
next
  case (Inr st)
  have f: "follows False None new_reader"
    by (simp add: follows_def new_reader_def truthy_def)
  have "exc st \<noteq> None"
    using not_conforms_reported [OF _ f Inr] assms by (simp add: well_formed_def)
  with Inr obtain errors where "ConfigParser_read_fp content = Inl (ParsingError errors)"
    by (auto simp: ConfigParser_read_fp_def)
  then show ?thesis by simp
qed


lemma section_header_duplicate:
  "section_header lineno header st = Inl x \<Longrightarrow> duplicate_error x"
  by (auto simp: section_header_def split: if_splits)

lemma option_line_duplicate:
  "option_line lineno line val cs st = Inl x \<Longrightarrow> duplicate_error x"
  by (auto simp: option_line_def Let_def split: option.splits prod.splits if_splits)

lemma option_line_not_reported:
  assumes "option_line lineno line val cs st = Inr st'"
    and "OPTCRE_match val = Some (option, optval)" "option \<noteq> []"
  shows "exc st' = exc st"
  using assms by (auto simp: option_line_def Let_def split: if_splits)

lemma read_line_blank_ok:
  assumes "strip line = [] \<or> full_line_comment line" "optname_present st"
  shows "\<exists>st'. read_line lineno line st = Inr st' \<and> exc st' = exc st"
proof (cases "cursect st")
  case None
  then show ?thesis by (simp add: read_line_blank_eq [OF assms(1)])
next
  case cs: (Some cs)
  show ?thesis
  proof (cases "optname st")
    case None
    with cs show ?thesis by (simp add: read_line_blank_eq [OF assms(1)])
  next
    case (Some k)
    show ?thesis
    proof (cases "k = []")
      case True
      with cs Some show ?thesis by (simp add: read_line_blank_eq [OF assms(1)])
    next
      case False
      from cursect_append_present [OF assms(2) cs Some False, of "[]"]
      show ?thesis using cs Some by (auto simp: read_line_blank_eq [OF assms(1)])
    qed
  qed
qed

lemma conforms_read_loop:
  "conforms s c lines \<Longrightarrow> follows s c st \<Longrightarrow> optname_present st \<Longrightarrow> exc st = None \<Longrightarrow>
   (case read_loop lineno lines st of
      Inl x \<Rightarrow> duplicate_error x
    | Inr st' \<Rightarrow> exc st' = None)"
proof (induction lines arbitrary: s c st lineno)
  case Nil
  then show ?case by simp
next
  case (Cons line lines)
  let ?i = "length (takeWhile isspace line)"
  show ?case
  proof (cases "strip line = [] \<or> full_line_comment line")
    case True
    from read_line_blank_ok [OF True Cons.prems(3)] obtain st1 where
      s1: "read_line lineno line st = Inr st1" and e1: "exc st1 = exc st"
      by blast
    have "follows s c st1" using read_line_blank_follows [OF True s1 Cons.prems(2)] .
    moreover have "optname_present st1" using Cons.prems(3) s1 by (rule read_line_present)
    moreover have "conforms s c lines" using Cons.prems(1) True by auto
    ultimately show ?thesis
      using Cons.IH [of s c st1 "Suc lineno"] e1 Cons.prems(4) s1 by simp
  next
    case False
    then have t: "strip line \<noteq> []" "\<not> full_line_comment line" by auto
    note eq = read_line_text_eq [OF t, of lineno st]
    show ?thesis
    proof (cases "read_line lineno line st")
      case (Inl x)
      have "duplicate_error x"
      proof (cases "cursect st")
        case None
        then have ns: "\<not> s" using Cons.prems(2) by (simp add: follows_def)
        with Cons.prems(1) t obtain header where "SECTCRE_match (strip line) = Some header"
          by (auto simp: Let_def split: if_splits)
        with Inl eq None show ?thesis by (auto dest: section_header_duplicate)
      next
        case (Some cs)
        show ?thesis
        proof (cases "truthy (optname st) \<and> ?i > indent_level st")
          case True
          then obtain k where k: "optname st = Some k" "k \<noteq> []"
            by (auto simp: truthy_def split: option.splits)
          from cursect_append_present [OF Cons.prems(3) Some k, of "strip line"]
          show ?thesis using Inl eq Some True k by auto
        next
          case False
          with Inl eq Some show ?thesis
            by (auto dest: section_header_duplicate option_line_duplicate
                split: option.splits)
        qed
      qed
      with Inl show ?thesis by simp
    next
      case (Inr st1)
      have p1: "optname_present st1" using Cons.prems(3) Inr by (rule read_line_present)
      have "\<exists>s' c'. conforms s' c' lines \<and> follows s' c' st1 \<and> exc st1 = None"
      proof (cases "s \<and> (case c of None \<Rightarrow> False | Some n \<Rightarrow> ?i > n)")
        case True
        with Cons.prems(1) t have nc: "conforms s c lines" by (auto simp: Let_def)
        from True Cons.prems(2) obtain cs where
          cs: "cursect st = Some cs" and tr: "truthy (optname st)" and il: "?i > indent_level st"
          by (auto simp: follows_def split: option.splits)
        with Inr eq have
          a: "cursect_append cs (case optname st of None \<Rightarrow> [] | Some k \<Rightarrow> k) (strip line) st = Inr st1"
          by simp
        then have "follows s c st1" using Cons.prems(2) by (rule cursect_append_follows)
        moreover from a have "exc st1 = exc st" by (rule cursect_append_exc)
        ultimately show ?thesis using nc Cons.prems(4) by auto
      next
        case ncont: False
        then have pc: "\<not> (cursect st \<noteq> None \<and> truthy (optname st) \<and> ?i > indent_level st)"
          using Cons.prems(2) by (auto simp: follows_def split: option.splits)
        show ?thesis
        proof (cases "SECTCRE_match (strip line)")
          case (Some header)
          with Cons.prems(1) t ncont have nc: "conforms True None lines"
            by (auto simp: Let_def)
          from Inr eq Some pc have
            h: "section_header lineno header (st\<lparr>indent_level := ?i\<rparr>) = Inr st1"
            by (auto split: option.splits if_splits)
          then have "follows True None st1" by (rule section_header_follows)
          moreover from h have "exc st1 = exc (st\<lparr>indent_level := ?i\<rparr>)"
            by (rule section_header_exc)
          ultimately show ?thesis using nc Cons.prems(4) by auto
        next
          case None
          with Cons.prems(1) t ncont obtain option optval where
            ins: s and m: "OPTCRE_match (strip line) = Some (option, optval)"
            and ne: "option \<noteq> []" and nc: "conforms True (Some ?i) lines"
            by (auto simp: Let_def split: if_splits option.splits)
          from ins Cons.prems(2) obtain cs where cs: "cursect st = Some cs"
            by (auto simp: follows_def)
          from Inr eq None cs pc have
            ol: "option_line lineno line (strip line) cs (st\<lparr>indent_level := ?i\<rparr>) = Inr st1"
            by (auto split: if_splits)
          have "follows True (Some (indent_level (st\<lparr>indent_level := ?i\<rparr>))) st1"
            using ol _ m ne by (rule option_line_follows) (simp add: cs)
          moreover have "exc st1 = exc (st\<lparr>indent_level := ?i\<rparr>)"
            using ol m ne by (rule option_line_not_reported)
          ultimately show ?thesis using nc Cons.prems(4) by auto
        qed
      qed
      then obtain s' c' where "conforms s' c' lines" "follows s' c' st1" "exc st1 = None"
        by blast
      from Cons.IH [OF this(1,2) p1 this(3), of "Suc lineno"] Inr show ?thesis by simp
    qed
  qed
qed

lemma well_formed_read:
  assumes "well_formed content" "ConfigParser_read_fp content = Inl x"
  shows "duplicate_error x"
proof -
  have f: "follows False None new_reader"
    by (simp add: follows_def new_reader_def truthy_def)
  have p: "optname_present new_reader"
    by (simp add: optname_present_def new_reader_def)
  have e: "exc new_reader = None" by (simp add: new_reader_def)
  from conforms_read_loop [OF assms(1) [unfolded well_formed_def] f p e, of 1] assms(2)
  show ?thesis
    by (auto simp: ConfigParser_read_fp_def split: sum.splits option.splits)
qed

lemma ParsingError_iff_not_well_formed:
  assumes "ConfigParser_read_fp content = Inl x" "\<not> duplicate_error x"
  shows "isinstance_ParsingError x \<and> \<not> well_formed content"
  using assms well_formed_read [of content x] ConfigParser_read_fp_error [of content x]
  by (auto simp: read_error_def)


section \<open>What the script computes\<close>

lemma py_slice_1_minus_1: "py_slice v 1 (- 1) = butlast (tl v)"
proof (cases v)
  case Nil
  then show ?thesis by (simp add: py_slice_def slice_index_def)
next
  case (Cons a w)
  then show ?thesis
    by (simp add: py_slice_def slice_index_def butlast_conv_take)
qed

lemma optionxform_version: "optionxform ''version'' = ''version''"
  by code_simp

lemma package_not_default: "''package'' \<noteq> default_section"
  by (simp add: default_section_def)

lemma before_get_no_percent:
  assumes "CHR ''%'' \<notin> set v"
  shows "before_get d v = Inr v"
proof -
  have "interpolate_while d [] v 1 = Inr (if v = [] then [] else [v])"
    using assms by (subst interpolate_while.simps) simp
  then have "interpolate_some d [] v 1 = Inr (if v = [] then [] else [v])"
    by (subst interpolate_some.simps) (simp add: MAX_INTERPOLATION_DEPTH_def)
  then show ?thesis by (simp add: before_get_def)
qed

lemma read_existing:
  "map_of fs CONFIG_FILE = Some content \<Longrightarrow>
   ConfigParser_read ConfigParser fs CONFIG_FILE = ConfigParser_read_fp content"
  by (simp add: ConfigParser_read_def open_file_def)

lemma read_missing:
  "map_of fs CONFIG_FILE = None \<Longrightarrow>
   ConfigParser_read ConfigParser fs CONFIG_FILE = Inr ConfigParser"
  by (simp add: ConfigParser_read_def open_file_def)

lemma main_of_get_version:
  "main fs argv =
     (case get_version fs CONFIG_FILE of
        Inl x \<Rightarrow> \<lparr>stdout = [], exit_status = 1, uncaught = Some x\<rparr>
      | Inr version \<Rightarrow>
          \<lparr>stdout = py_slice version 1 (- 1) @ [LF], exit_status = 0, uncaught = None\<rparr>)"
  by (simp add: main_def get_version_def)

lemma get_version_of_config:
  assumes "map_of fs CONFIG_FILE = Some content"
    and "ConfigParser_read_fp content = Inr config"
  shows "get_version fs p =
     (case map_of (sections config) ''package'' of
        None \<Rightarrow> Inl (KeyError ''package'')
      | Some sect \<Rightarrow>
          (case chain_lookup (sect, defaults config) ''version'' of
             None \<Rightarrow> Inl (KeyError ''version'')
           | Some v \<Rightarrow> before_get (sect, defaults config) v))"
  using assms
  by (auto simp: get_version_def read_existing ConfigParser_getitem_def
      SectionProxy_getitem_def has_section_def has_option_def ConfigParser_get_def
      unify_values_def chain_lookup_def optionxform_version package_not_default
      split: option.splits)


section \<open>From the text of a manifest to the value of its version\<close>

text \<open>
  For a file that the parser reads without error, the value that the configuration gives
  to \<^verbatim>\<open>version\<close> in \<^verbatim>\<open>package\<close> is the stripped text after the delimiter of the
  version line: a section or an option given twice would have ended the read, so no later
  line can change it.
\<close>

lemma read_loop_append:
  "read_loop lineno (xs @ ys) st =
     (case read_loop lineno xs st of
        Inl x \<Rightarrow> Inl x
      | Inr st1 \<Rightarrow> read_loop (lineno + length xs) ys st1)"
  by (induction xs arbitrary: lineno st) (auto split: sum.splits)

lemma version_value_store:
  "version_value (cursect_store cs d st) =
     (if cs = SectionDict ''package'' then map_of d ''version'' else version_value st)"
  by (cases cs) (auto simp: version_value_def update_conv')

lemma version_value_items:
  "map_of (cursect_items st (SectionDict ''package'')) ''version'' = version_value st"
  by (simp add: version_value_def split: option.splits)

lemma version_value_fields [simp]:
  "version_value (st\<lparr>indent_level := n\<rparr>) = version_value st"
  "version_value (st\<lparr>exc := e\<rparr>) = version_value st"
  "version_value (st\<lparr>added_options := ao\<rparr>) = version_value st"
  "version_value (st\<lparr>optname := opt\<rparr>) = version_value st"
  "version_value (st\<lparr>cursect := c\<rparr>) = version_value st"
  "version_value (st\<lparr>sectname := sn\<rparr>) = version_value st"
  "version_value (st\<lparr>added_sections := ads\<rparr>) = version_value st"
  by (simp_all add: version_value_def)

lemma cursect_append_value:
  assumes "cursect_append cs k x st = Inr st'"
  shows "version_value st' =
     (if cs = SectionDict ''package'' \<and> k = ''version''
      then map_option (\<lambda>v. v @ [x]) (version_value st) else version_value st)"
proof -
  from assms obtain v where v: "map_of (cursect_items st cs) k = Some v"
    and st': "st' = cursect_store cs (AList.update k (v @ [x]) (cursect_items st cs)) st"
    by (auto simp: cursect_append_def split: option.splits)
  show ?thesis
    using v unfolding st' version_value_store
    by (auto simp: update_conv' version_value_def split: option.splits)
qed

lemma cursect_append_more_fields:
  "cursect_append cs k x st = Inr st' \<Longrightarrow>
   sectname st' = sectname st \<and> added_sections st' = added_sections st
   \<and> added_options st' = added_options st"
  by (auto simp: cursect_append_def split: option.splits)

lemma r_sections_store:
  "map_of (r_sections (cursect_store cs d st)) n =
     (if cs = SectionDict n then Some d else map_of (r_sections st) n)"
  by (cases cs) (auto simp: update_conv')

lemma header_not_comment:
  assumes "SECTCRE_match (strip line) = Some header"
  shows "strip line \<noteq> [] \<and> \<not> full_line_comment line"
proof -
  from assms obtain cs where "strip line = CHR ''['' # cs"
    by (cases "strip line") (auto simp: SECTCRE_match_def split: if_splits)
  then show ?thesis
    by (simp add: full_line_comment_def comment_prefixes_def startswith_def)
qed

lemma option_not_blank:
  "OPTCRE_match val = Some p \<Longrightarrow> val \<noteq> []"
  by (auto simp: OPTCRE_match_def)

lemma read_line_unindented:
  assumes "strip line \<noteq> []" "\<not> full_line_comment line" "takeWhile isspace line = []"
  shows "read_line lineno line st =
     (case SECTCRE_match (strip line) of
        Some header \<Rightarrow> section_header lineno header (st\<lparr>indent_level := 0\<rparr>)
      | None \<Rightarrow>
          (case cursect st of
             None \<Rightarrow> Inl (MissingSectionHeaderError lineno line)
           | Some cs \<Rightarrow> option_line lineno line (strip line) cs (st\<lparr>indent_level := 0\<rparr>)))"
  using assms(3) unfolding read_line_text_eq [OF assms(1,2)]
  by (auto split: option.splits)

lemma opens_package:
  assumes "opens_section line ''package''" "read_line lineno line st = Inr st'"
  shows "in_package st'"
proof -
  from assms(1) have m: "SECTCRE_match (strip line) = Some ''package''"
    and u: "takeWhile isspace line = []"
    by (simp_all add: opens_section_def)
  from header_not_comment [OF m] have t: "strip line \<noteq> []" "\<not> full_line_comment line"
    by simp_all
  from assms(2) have "section_header lineno ''package'' (st\<lparr>indent_level := 0\<rparr>) = Inr st'"
    by (simp add: read_line_unindented [OF t u] m)
  then show ?thesis
    by (auto simp: section_header_def in_package_def default_section_def update_conv'
        split: if_splits)
qed

lemma cursect_append_in_package:
  assumes "cursect_append cs k x st = Inr st'" "in_package st"
  shows "in_package st'"
proof -
  from assms(1) obtain d where "st' = cursect_store cs d st"
    by (auto simp: cursect_append_def split: option.splits)
  with assms(2) show ?thesis by (simp add: in_package_def r_sections_store)
qed

lemma option_line_in_package:
  assumes "option_line lineno line val cs st = Inr st'" "in_package st"
  shows "in_package st'"
  using assms
  by (auto simp: option_line_def Let_def in_package_def r_sections_store
      split: option.splits if_splits)

lemma in_package_indent [simp]:
  "in_package (st\<lparr>indent_level := n\<rparr>) = in_package st"
  by (simp add: in_package_def)

lemma stays_in_package:
  assumes "in_package st" "SECTCRE_match (strip line) = None"
    and "read_line lineno line st = Inr st'"
  shows "in_package st'"
proof (cases "strip line = [] \<or> full_line_comment line")
  case True
  with assms(1,3) show ?thesis
    unfolding read_line_blank_eq [OF True]
    by (auto dest: cursect_append_in_package split: option.splits if_splits)
next
  case False
  then have t: "strip line \<noteq> []" "\<not> full_line_comment line" by auto
  from assms(1) have cs: "cursect st = Some (SectionDict ''package'')"
    by (simp add: in_package_def)
  from assms(3) show ?thesis
    unfolding read_line_text_eq [OF t] using assms(1,2) cs
    by (auto dest: cursect_append_in_package option_line_in_package split: if_splits)
qed

lemma stays_in_package_loop:
  "in_package st \<Longrightarrow> \<forall>l \<in> set lines. SECTCRE_match (strip l) = None \<Longrightarrow>
   read_loop lineno lines st = Inr st' \<Longrightarrow> in_package st'"
proof (induction lines arbitrary: lineno st)
  case Nil
  then show ?case by simp
next
  case (Cons l lines)
  from Cons.prems(3) obtain st1 where
    s1: "read_line lineno l st = Inr st1" and s2: "read_loop (Suc lineno) lines st1 = Inr st'"
    by (auto split: sum.splits)
  from Cons.prems(1,2) s1 have "in_package st1" by (auto intro: stays_in_package)
  with Cons.IH s2 Cons.prems(2) show ?case by auto
qed

lemma assigns_version:
  assumes "in_package st" "assigns line ''version'' q" "read_line lineno line st = Inr st'"
  shows "version_open q 0 st'"
proof -
  from assms(2) obtain option optval where
    u: "takeWhile isspace line = []" and nc: "\<not> full_line_comment line"
    and nh: "SECTCRE_match (strip line) = None"
    and m: "OPTCRE_match (strip line) = Some (option, optval)"
    and k: "optionxform (rstrip option) = ''version''" and v: "strip optval = q"
    by (auto simp: assigns_def split: option.splits)
  from m have t: "strip line \<noteq> []" by (rule option_not_blank)
  from assms(1) have cs: "cursect st = Some (SectionDict ''package'')"
    by (simp add: in_package_def)
  from assms(3) have
    ol: "option_line lineno line (strip line) (SectionDict ''package'') (st\<lparr>indent_level := 0\<rparr>)
      = Inr st'"
    by (simp add: read_line_unindented [OF t nc u] nh cs)
  from ol assms(1) have "in_package st'"
    using option_line_in_package [OF ol] by simp
  moreover from ol m k v have "optname st' = Some ''version''" "indent_level st' = 0"
    "(Some ''package'', ''version'') \<in> set (added_options st')"
    "version_value st' = Some [q]"
    using assms(1)
    by (auto simp: option_line_def Let_def in_package_def version_value_def update_conv'
        split: if_splits)
  ultimately show ?thesis by (simp add: version_open_def)
qed

lemma version_kept_indent [simp]:
  "version_kept (st\<lparr>indent_level := n\<rparr>) = version_kept st"
  by (simp add: version_kept_def)

lemma cursect_append_kept:
  assumes "cursect_append cs k x st = Inr st'" "version_kept st"
    and "cursect st = Some cs" "optname st = Some k"
  shows "version_kept st' \<and> version_value st' = version_value st"
proof -
  from assms(2,3,4) have "\<not> (cs = SectionDict ''package'' \<and> k = ''version'')"
    by (auto simp: version_kept_def)
  then have "version_value st' = version_value st"
    using cursect_append_value [OF assms(1)] by auto
  moreover have "version_kept st'"
    using assms(2) cursect_append_fields [OF assms(1)] cursect_append_more_fields [OF assms(1)]
    by (simp add: version_kept_def)
  ultimately show ?thesis by simp
qed

lemma section_header_leaves:
  assumes "section_header lineno header st = Inr st'"
    and "''package'' \<in> set (added_sections st)"
    and "(Some ''package'', ''version'') \<in> set (added_options st)"
    and "version_value st = Some w"
  shows "version_kept st' \<and> version_value st' = Some w"
proof -
  from assms(4) have p: "map_of (r_sections st) ''package'' \<noteq> None"
    by (auto simp: version_value_def split: option.splits)
  from assms(1,2) p have ne: "header \<noteq> ''package''"
    by (auto simp: section_header_def split: if_splits)
  from assms ne show ?thesis
    by (auto simp: section_header_def version_kept_def version_value_def update_conv'
        split: if_splits)
qed

lemma section_header_kept:
  assumes "section_header lineno header st = Inr st'" "version_kept st"
    and "version_value st = Some w"
  shows "version_kept st' \<and> version_value st' = Some w"
  using section_header_leaves [OF assms(1) _ _ assms(3)] assms(2)
  by (simp add: version_kept_def)

lemma option_line_kept:
  assumes "option_line lineno line val cs st = Inr st'" "version_kept st"
    and "cursect st = Some cs"
  shows "version_kept st' \<and> version_value st' = version_value st"
proof (cases "OPTCRE_match val")
  case None
  with assms show ?thesis
    by (auto simp: option_line_def version_kept_def)
next
  case (Some p)
  obtain option optval where p: "p = (option, optval)" by (cases p)
  let ?name = "optionxform (rstrip option)"
  let ?st1 = "if option = [] then st\<lparr>exc := handle_error (exc st) lineno line\<rparr> else st"
  from assms(1) Some p have
    n: "(sectname st, ?name) \<notin> set (added_options st)"
    and st': "st' = cursect_store cs (AList.update ?name [strip optval] (cursect_items ?st1 cs))
        (?st1\<lparr>added_options := (sectname ?st1, ?name) # added_options ?st1,
              optname := Some ?name\<rparr>)"
    by (auto simp: option_line_def Let_def split: if_splits)
  have k: "cs = SectionDict ''package'' \<Longrightarrow> ?name \<noteq> ''version''"
    using assms(2,3) n by (auto simp: version_kept_def)
  have "version_value st' = version_value st"
    unfolding st' version_value_store using k
    by (auto simp: update_conv' version_value_def split: option.splits)
  moreover have "version_kept st'"
    unfolding st' using assms(2,3) k by (auto simp: version_kept_def)
  ultimately show ?thesis by simp
qed

lemma read_line_kept:
  assumes "read_line lineno line st = Inr st'" "version_kept st" "version_value st = Some w"
  shows "version_kept st' \<and> version_value st' = Some w"
proof (cases "strip line = [] \<or> full_line_comment line")
  case True
  from assms show ?thesis
    unfolding read_line_blank_eq [OF True]
    by (auto dest: cursect_append_kept split: option.splits if_splits)
next
  case False
  then have t: "strip line \<noteq> []" "\<not> full_line_comment line" by auto
  show ?thesis
  proof (cases "cursect st")
    case None
    with assms show ?thesis
      unfolding read_line_text_eq [OF t]
      by (auto dest: section_header_kept [where w = w] split: option.splits)
  next
    case (Some cs)
    show ?thesis
    proof (cases "truthy (optname st) \<and> length (takeWhile isspace line) > indent_level st")
      case True
      then obtain k where k: "optname st = Some k"
        by (auto simp: truthy_def split: option.splits)
      with assms Some True show ?thesis
        unfolding read_line_text_eq [OF t]
        by (auto dest: cursect_append_kept)
    next
      case ncont: False
      show ?thesis
      proof (cases "SECTCRE_match (strip line)")
        case None
        with assms Some ncont have
          "option_line lineno line (strip line) cs
             (st\<lparr>indent_level := length (takeWhile isspace line)\<rparr>) = Inr st'"
          unfolding read_line_text_eq [OF t] by (auto split: if_splits)
        from option_line_kept [OF this] assms(2,3) Some show ?thesis by simp
      next
        case (Some header)
        with assms \<open>cursect st = Some cs\<close> ncont have
          "section_header lineno header
             (st\<lparr>indent_level := length (takeWhile isspace line)\<rparr>) = Inr st'"
          unfolding read_line_text_eq [OF t] by (auto split: if_splits)
        from section_header_kept [OF this, of w] assms(2,3) show ?thesis by simp
      qed
    qed
  qed
qed

lemma read_loop_kept:
  "read_loop lineno lines st = Inr st' \<Longrightarrow> version_kept st \<Longrightarrow> version_value st = Some w
   \<Longrightarrow> version_value st' = Some w"
proof (induction lines arbitrary: lineno st)
  case Nil
  then show ?case by simp
next
  case (Cons l lines)
  from Cons.prems(1) obtain st1 where
    s1: "read_line lineno l st = Inr st1" and s2: "read_loop (Suc lineno) lines st1 = Inr st'"
    by (auto split: sum.splits)
  from read_line_kept [OF s1 Cons.prems(2,3)] Cons.IH [OF s2] show ?case by simp
qed

lemma version_open_blank:
  assumes "version_open q k st"
    and "cursect_append (SectionDict ''package'') ''version'' [] st = Inr st'"
  shows "version_open q (Suc k) st'"
proof -
  from assms(1) have "version_value st = Some (q # replicate k [])"
    by (simp add: version_open_def)
  then have "version_value st' = Some (q # replicate (Suc k) [])"
    using cursect_append_value [OF assms(2)] by (simp add: replicate_append_same)
  moreover have "in_package st'"
    using assms by (auto simp: version_open_def intro: cursect_append_in_package)
  ultimately show ?thesis
    using assms(1) cursect_append_fields [OF assms(2)] cursect_append_more_fields [OF assms(2)]
    by (simp add: version_open_def)
qed

lemma version_open_closes:
  assumes "version_open q k st" "strip line \<noteq> []" "\<not> full_line_comment line"
    and "takeWhile isspace line = []" "read_line lineno line st = Inr st'"
  shows "exc st' \<noteq> None \<or> (version_kept st' \<and> version_value st' = Some (q # replicate k []))"
proof (cases "SECTCRE_match (strip line)")
  case (Some header)
  with assms(5) have "section_header lineno header (st\<lparr>indent_level := 0\<rparr>) = Inr st'"
    by (simp add: read_line_unindented [OF assms(2,3,4)])
  from section_header_leaves [OF this, of "q # replicate k []"] assms(1)
  show ?thesis by (simp add: version_open_def in_package_def)
next
  case None
  from assms(1) have cs: "cursect st = Some (SectionDict ''package'')"
    and sn: "sectname st = Some ''package''"
    and ao: "(Some ''package'', ''version'') \<in> set (added_options st)"
    and ad: "''package'' \<in> set (added_sections st)"
    and vv: "version_value st = Some (q # replicate k [])"
    by (simp_all add: version_open_def in_package_def)
  from assms(5) None cs have
    ol: "option_line lineno line (strip line) (SectionDict ''package'') (st\<lparr>indent_level := 0\<rparr>)
      = Inr st'"
    by (simp add: read_line_unindented [OF assms(2,3,4)])
  show ?thesis
  proof (cases "OPTCRE_match (strip line) = None
      \<or> (\<exists>optval. OPTCRE_match (strip line) = Some ([], optval))")
    case True
    with ol have "exc st' \<noteq> None" by (rule option_line_reported)
    then show ?thesis by simp
  next
    case False
    then obtain option optval where
      m: "OPTCRE_match (strip line) = Some (option, optval)" and ne: "option \<noteq> []"
      by (cases "OPTCRE_match (strip line)") auto
    let ?name = "optionxform (rstrip option)"
    from ol m ne sn have n: "(Some ''package'', ?name) \<notin> set (added_options st)"
      and st': "st' = cursect_store (SectionDict ''package'')
          (AList.update ?name [strip optval]
             (cursect_items (st\<lparr>indent_level := 0\<rparr>) (SectionDict ''package'')))
          (st\<lparr>indent_level := 0,
              added_options := (Some ''package'', ?name) # added_options st,
              optname := Some ?name\<rparr>)"
      by (auto simp: option_line_def Let_def split: if_splits)
    from n ao have k: "?name \<noteq> ''version''" by auto
    have "version_value st' = version_value st"
      unfolding st' version_value_store using k
      by (auto simp: update_conv' version_value_def split: option.splits)
    moreover have "version_kept st'"
      unfolding st' using cs sn ao ad k by (auto simp: version_kept_def)
    ultimately show ?thesis using vv by simp
  qed
qed

lemma version_open_loop:
  "version_open q k st \<Longrightarrow> no_continuation lines \<Longrightarrow> read_loop lineno lines st = Inr st'
   \<Longrightarrow> exc st' = None \<Longrightarrow> \<exists>j. version_value st' = Some (q # replicate j [])"
proof (induction lines arbitrary: k st lineno)
  case Nil
  then show ?case by (auto simp: version_open_def)
next
  case (Cons l lines)
  from Cons.prems(3) obtain st1 where
    s1: "read_line lineno l st = Inr st1" and s2: "read_loop (Suc lineno) lines st1 = Inr st'"
    by (auto split: sum.splits)
  from Cons.prems(1) have cs: "cursect st = Some (SectionDict ''package'')"
    and on: "optname st = Some ''version''"
    by (simp_all add: version_open_def in_package_def)
  show ?case
  proof (cases "strip l = [] \<or> full_line_comment l")
    case True
    with Cons.prems(2) have nc: "no_continuation lines" by auto
    have "\<exists>j. version_open q j st1"
    proof (cases "full_line_comment l")
      case True
      with s1 cs on have "st1 = st"
        by (simp add: read_line_blank_eq [OF \<open>strip l = [] \<or> full_line_comment l\<close>])
      with Cons.prems(1) show ?thesis by blast
    next
      case False
      with s1 cs on have "cursect_append (SectionDict ''package'') ''version'' [] st = Inr st1"
        by (simp add: read_line_blank_eq [OF \<open>strip l = [] \<or> full_line_comment l\<close>])
      with Cons.prems(1) show ?thesis by (blast intro: version_open_blank)
    qed
    then obtain j where "version_open q j st1" by blast
    from Cons.IH [OF this nc s2 Cons.prems(4)] show ?thesis .
  next
    case False
    then have t: "strip l \<noteq> []" "\<not> full_line_comment l" by auto
    with Cons.prems(2) have u: "takeWhile isspace l = []" by simp
    from version_open_closes [OF Cons.prems(1) t u s1]
    show ?thesis
    proof
      assume "exc st1 \<noteq> None"
      with s2 have "exc st' \<noteq> None" by (rule read_loop_exc)
      with Cons.prems(4) show ?thesis by simp
    next
      assume "version_kept st1 \<and> version_value st1 = Some (q # replicate k [])"
      with s2 have "version_value st' = Some (q # replicate k [])"
        by (auto intro: read_loop_kept)
      then show ?thesis by blast
    qed
  qed
qed

lemma join_blank_lines: "join [LF] (q # replicate k []) = q @ replicate k LF"
  by (induction k arbitrary: q) simp_all

lemma isspace_LF: "isspace LF"
  by code_simp

lemma rstrip_blank_lines: "rstrip (q @ replicate k LF) = rstrip q"
proof -
  have "dropWhile isspace (replicate k LF @ rev q) = dropWhile isspace (rev q)"
    by (rule dropWhile_append2) (simp add: isspace_LF)
  then show ?thesis by (simp add: rstrip_def)
qed

lemma rstrip_strip: "rstrip (strip s) = strip s"
  by (simp add: strip_def rstrip_rstrip)

lemma join_options_lookup:
  "map_of (join_options options) k = map_option (\<lambda>v. rstrip (join [LF] v)) (map_of options k)"
  by (induction options) (auto simp: join_options_def)

lemma map_of_joined:
  "map_of (map (\<lambda>(section, options). (section, join_options options)) xs) n
   = map_option join_options (map_of xs n)"
  by (induction xs) auto

lemma joined_sections_lookup:
  "map_of (sections (join_multiline_values st)) n = map_option join_options (map_of (r_sections st) n)"
  by (simp add: join_multiline_values_def map_of_joined)

lemma version_line_read:
  assumes "ConfigParser_read_fp content = Inr config"
    and "readlines (universal_newlines content) = pre @ [h] @ mid @ [v] @ post"
    and "opens_section h ''package''"
    and "\<forall>l \<in> set mid. SECTCRE_match (strip l) = None"
    and "assigns v ''version'' q"
    and "no_continuation post"
  shows "\<exists>sect. map_of (sections config) ''package'' = Some sect
     \<and> map_of sect ''version'' = Some q"
proof -
  from assms(1) obtain stF where
    loop: "read_loop 1 (readlines (universal_newlines content)) new_reader = Inr stF"
    and ex: "exc stF = None" and cfg: "config = join_multiline_values stF"
    by (auto simp: ConfigParser_read_fp_def split: sum.splits option.splits)
  from loop obtain st0 where
    l0: "read_loop 1 pre new_reader = Inr st0"
    and r0: "read_loop (1 + length pre) (h # mid @ v # post) st0 = Inr stF"
    unfolding assms(2) by (auto simp: read_loop_append split: sum.splits)
  from r0 obtain st1 where
    l1: "read_line (1 + length pre) h st0 = Inr st1"
    and r1: "read_loop (Suc (1 + length pre)) (mid @ v # post) st1 = Inr stF"
    by (auto split: sum.splits)
  from r1 obtain st2 where
    l2: "read_loop (Suc (1 + length pre)) mid st1 = Inr st2"
    and r2: "read_loop (Suc (1 + length pre) + length mid) (v # post) st2 = Inr stF"
    by (auto simp: read_loop_append split: sum.splits)
  from r2 obtain st3 where
    l3: "read_line (Suc (1 + length pre) + length mid) v st2 = Inr st3"
    and r3: "read_loop (Suc (Suc (1 + length pre) + length mid)) post st3 = Inr stF"
    by (auto split: sum.splits)
  have "in_package st1" using assms(3) l1 by (rule opens_package)
  then have "in_package st2" using assms(4) l2 by (rule stays_in_package_loop)
  then have "version_open q 0 st3" using assms(5) l3 by (rule assigns_version)
  from version_open_loop [OF this assms(6) r3 ex] obtain j where
    j: "version_value stF = Some (q # replicate j [])"
    by blast
  then obtain d where d: "map_of (r_sections stF) ''package'' = Some d"
    and dv: "map_of d ''version'' = Some (q # replicate j [])"
    by (auto simp: version_value_def split: option.splits)
  from assms(5) obtain optval where "q = strip optval"
    by (auto simp: assigns_def split: option.splits)
  then have "rstrip (join [LF] (q # replicate j [])) = q"
    by (simp add: join_blank_lines rstrip_blank_lines rstrip_strip)
  with d dv show ?thesis
    unfolding cfg by (simp add: joined_sections_lookup join_options_lookup)
qed

lemma version_line_printed:
  assumes "map_of fs CONFIG_FILE = Some content"
    and "ConfigParser_read_fp content = Inr config"
    and "readlines (universal_newlines content) = pre @ [h] @ mid @ [v] @ post"
    and "opens_section h ''package''"
    and "\<forall>l \<in> set mid. SECTCRE_match (strip l) = None"
    and "assigns v ''version'' q"
    and "no_continuation post"
    and "CHR ''%'' \<notin> set q"
  shows "get_version fs CONFIG_FILE = Inr q
     \<and> main fs [prog] = \<lparr>stdout = butlast (tl q) @ [LF], exit_status = 0, uncaught = None\<rparr>"
proof -
  from version_line_read [OF assms(2-7)] obtain sect where
    "map_of (sections config) ''package'' = Some sect" "map_of sect ''version'' = Some q"
    by blast
  then have "get_version fs CONFIG_FILE = Inr q"
    using assms(8)
    by (simp add: get_version_of_config [OF assms(1,2)] chain_lookup_def before_get_no_percent)
  then show ?thesis by (simp add: main_of_get_version py_slice_1_minus_1)
qed

lemma version_line_printed_example:
  \<open>main [(CONFIG_FILE, manifest_cifra)] [''get_version.py'']
     = \<lparr>stdout = ''1.0.0\<newline>'', exit_status = 0, uncaught = None\<rparr>\<close>
proof -
  let ?pre = \<open>[''# cifra\<newline>'']\<close>
  let ?h = \<open>''[package]\<newline>''\<close>
  let ?mid = \<open>[''name = "cifra"\<newline>'']\<close>
  let ?v = \<open>''version = "1.0.0"\<newline>''\<close>
  let ?post = \<open>[''authors = ["dante"]\<newline>'', ''\<newline>'', ''[dependencies]\<newline>'',
    ''clap = "2.33"\<newline>'']\<close>
  have h1: \<open>map_of [(CONFIG_FILE, manifest_cifra)] CONFIG_FILE = Some manifest_cifra\<close>
    by simp
  have h2: \<open>ConfigParser_read_fp manifest_cifra
    = Inr \<lparr>sections = [(''package'', [(''name'', ''"cifra"''), (''version'', ''"1.0.0"''),
                                        (''authors'', ''["dante"]'')]),
                        (''dependencies'', [(''clap'', ''"2.33"'')])],
           defaults = []\<rparr>\<close>
    by code_simp
  have h3: \<open>readlines (universal_newlines manifest_cifra) = ?pre @ [?h] @ ?mid @ [?v] @ ?post\<close>
    by code_simp
  have h4: \<open>opens_section ?h ''package''\<close>
    by code_simp
  have h5: \<open>\<forall>l \<in> set ?mid. SECTCRE_match (strip l) = None\<close>
    by code_simp
  have h6: \<open>assigns ?v ''version'' ''"1.0.0"''\<close>
    by code_simp
  have h7: \<open>no_continuation ?post\<close>
    by code_simp
  have h8: \<open>CHR ''%'' \<notin> set ''"1.0.0"''\<close>
    by simp
  show ?thesis
    using version_line_printed [OF h1 h2 h3 h4 h5 h6 h7 h8, of "''get_version.py''"]
    by (simp add: LF_def)
qed


section \<open>The claims\<close>

text \<open>
  Claim C1: with a path as its argument the program reads the manifest at that path and
  prints its version. The code reads \<^const>\<open>CONFIG_FILE\<close> whatever the argument is: with
  a manifest of version 0.0.1-alpha at \<^verbatim>\<open>release/Cargo.toml\<close> given as the argument,
  the run ends with \<^verbatim>\<open>KeyError\<close>, status 1 and no output when the working directory has
  no \<^verbatim>\<open>Cargo.toml\<close>, and prints the version 1.0.0 of the \<^verbatim>\<open>Cargo.toml\<close> of the
  working directory when there is one.
\<close>

theorem explicit_path_is_not_read:
  \<open>main [(''release/Cargo.toml'', manifest_alpha)] [''get_version.py'', ''release/Cargo.toml'']
     = \<lparr>stdout = [], exit_status = 1, uncaught = Some (KeyError ''package'')\<rparr>
   \<and> main [(''release/Cargo.toml'', manifest_alpha), (CONFIG_FILE, manifest_1_0_0)]
       [''get_version.py'', ''release/Cargo.toml'']
     = \<lparr>stdout = ''1.0.0\<newline>'', exit_status = 0, uncaught = None\<rparr>\<close>
  by code_simp

text \<open>
  Claim C2, as stated, fails: for a path that names no file, with no file at all in the
  file system, \<^verbatim>\<open>open\<close> raises \<^verbatim>\<open>OSError\<close>, but \<^verbatim>\<open>read\<close> passes over it and
  \<^const>\<open>get_version\<close> fails with \<^verbatim>\<open>KeyError\<close> on the section, not with an error of
  file access.
\<close>

theorem missing_file_is_not_a_file_error:
  \<open>open_file [] ''missing.toml'' = Inl OSError
   \<and> get_version [] ''missing.toml'' = Inl (KeyError ''package'')
   \<and> get_version [] ''missing.toml'' \<noteq> Inl OSError\<close>
  by code_simp

text \<open>
  Claim C2, amended: when the manifest that is read, \<^verbatim>\<open>Cargo.toml\<close> of the working
  directory, does not exist or cannot be read, \<^const>\<open>get_version\<close> on that path fails with
  \<^verbatim>\<open>KeyError\<close> on the section \<^verbatim>\<open>package\<close>, and the process, run with that path or
  with no argument, ends with status 1 and nothing on standard output.
\<close>

theorem missing_default_file_key_error:
  assumes "map_of fs CONFIG_FILE = None"
  shows "get_version fs CONFIG_FILE = Inl (KeyError ''package'')
     \<and> main fs [prog, CONFIG_FILE]
         = \<lparr>stdout = [], exit_status = 1, uncaught = Some (KeyError ''package'')\<rparr>
     \<and> main fs [prog]
         = \<lparr>stdout = [], exit_status = 1, uncaught = Some (KeyError ''package'')\<rparr>"
proof -
  have "ConfigParser_getitem ConfigParser ''package'' = Inl (KeyError ''package'')"
    by (simp add: ConfigParser_getitem_def has_section_def ConfigParser_def
        package_not_default)
  then have g: "get_version fs CONFIG_FILE = Inl (KeyError ''package'')"
    by (simp add: get_version_def read_missing [OF assms])
  then show ?thesis by (simp add: main_of_get_version)
qed

theorem missing_default_file_key_error_witness:
  \<open>get_version [(''release/Cargo.toml'', manifest_alpha)] CONFIG_FILE = Inl (KeyError ''package'')
   \<and> main [(''release/Cargo.toml'', manifest_alpha)] [''get_version.py'', CONFIG_FILE]
       = \<lparr>stdout = [], exit_status = 1, uncaught = Some (KeyError ''package'')\<rparr>
   \<and> main [(''release/Cargo.toml'', manifest_alpha)] [''get_version.py'']
       = \<lparr>stdout = [], exit_status = 1, uncaught = Some (KeyError ''package'')\<rparr>\<close>
proof -
  have h: \<open>map_of [(''release/Cargo.toml'', manifest_alpha)] CONFIG_FILE = None\<close>
    by (simp add: CONFIG_FILE_def)
  show ?thesis by (rule missing_default_file_key_error [OF h])
qed

text \<open>
  Claim C3: the value of \<^const>\<open>get_version\<close> does not depend on its parameter: in one
  state of the file system, any two paths give the same result.
\<close>

theorem get_version_ignores_config_file:
  "get_version fs p = get_version fs q"
  by (simp add: get_version_def)

text \<open>
  Claim C4, as stated, fails: the manifest parses, its section \<^verbatim>\<open>package\<close> has the key
  \<^verbatim>\<open>version\<close> with the raw value \<^verbatim>\<open>"1.0%%"\<close>, and \<^const>\<open>get_version\<close> returns
  \<^verbatim>\<open>"1.0%"\<close>: the interpolation of the parser has replaced the two percent signs by one.
\<close>

theorem raw_value_with_percent_is_modified:
  \<open>ConfigParser_read_fp manifest_percent
     = Inr \<lparr>sections = [(''package'', [(''version'', ''"1.0%%"'')])], defaults = []\<rparr>
   \<and> get_version [(CONFIG_FILE, manifest_percent)] CONFIG_FILE = Inr ''"1.0%"''\<close>
  by code_simp

text \<open>
  Claim C4, amended: for every manifest read by \<^const>\<open>get_version\<close> that parses and has
  a section \<^verbatim>\<open>package\<close> with a key \<^verbatim>\<open>version\<close> whose raw value has no percent sign,
  \<^const>\<open>get_version\<close> returns that raw value unchanged, its quote characters included.
\<close>

theorem get_version_returns_raw_value:
  assumes "map_of fs CONFIG_FILE = Some content"
    and "ConfigParser_read_fp content = Inr config"
    and "map_of (sections config) ''package'' = Some sect"
    and "map_of sect ''version'' = Some v"
    and "CHR ''%'' \<notin> set v"
  shows "get_version fs p = Inr v"
  using assms
  by (simp add: get_version_of_config [OF assms(1,2)] chain_lookup_def before_get_no_percent)

theorem get_version_returns_raw_value_witness:
  \<open>get_version [(CONFIG_FILE, manifest_alpha)] CONFIG_FILE = Inr ''"0.0.1-alpha"''\<close>
proof -
  have h1: \<open>map_of [(CONFIG_FILE, manifest_alpha)] CONFIG_FILE = Some manifest_alpha\<close>
    by simp
  have h2: \<open>ConfigParser_read_fp manifest_alpha
    = Inr \<lparr>sections = [(''package'', [(''name'', ''"cifra"''), (''version'', ''"0.0.1-alpha"'')])],
           defaults = []\<rparr>\<close>
    by code_simp
  have h3: \<open>map_of (sections \<lparr>sections = [(''package'', [(''name'', ''"cifra"''), (''version'', ''"0.0.1-alpha"'')])],
           defaults = []\<rparr>) ''package'' = Some [(''name'', ''"cifra"''), (''version'', ''"0.0.1-alpha"'')]\<close>
    by simp
  have h4: \<open>map_of [(''name'', ''"cifra"''), (''version'', ''"0.0.1-alpha"'')] ''version''
    = Some ''"0.0.1-alpha"''\<close>
    by simp
  have h5: \<open>CHR ''%'' \<notin> set ''"0.0.1-alpha"''\<close>
    by simp
  show ?thesis by (rule get_version_returns_raw_value [OF h1 h2 h3 h4 h5])
qed

text \<open>
  Claim C5, as stated, fails: the first line of \<^verbatim>\<open>Cargo.toml\<close> opens the section
  \<^verbatim>\<open>package\<close> and its third line gives \<^verbatim>\<open>version\<close> the raw value \<^verbatim>\<open>"1.0.0"\<close>,
  but the file has two tables \<^verbatim>\<open>[[bin]]\<close>, which the parser reads as one section name
  given twice: the program, run with no argument, ends with
  \<^verbatim>\<open>DuplicateSectionError\<close>, status 1 and nothing on standard output.
\<close>

theorem duplicate_table_stops_the_run:
  \<open>readlines (universal_newlines manifest_two_bins) ! 0 = ''[package]\<newline>''
   \<and> readlines (universal_newlines manifest_two_bins) ! 2 = ''version = "1.0.0"\<newline>''
   \<and> main [(CONFIG_FILE, manifest_two_bins)] [''get_version.py'']
     = \<lparr>stdout = [], exit_status = 1,
        uncaught = Some (DuplicateSectionError ''[bin]'' 8)\<rparr>\<close>
  by code_simp

text \<open>
  Claim C5, amended: when \<^verbatim>\<open>Cargo.toml\<close> of the working directory is a file that the
  parser reads without error, with a section \<^verbatim>\<open>package\<close> whose key \<^verbatim>\<open>version\<close> has
  the raw value \<^verbatim>\<open>"1.0.0"\<close>, quotes included, the program run with no argument prints
  \<^verbatim>\<open>1.0.0\<close> and a newline and exits with status 0. The evaluation after the theorem
  reads two files: the two lines of the specification, and a manifest with a comment,
  indented lines, a capital in the key, another section and old Macintosh line ends.
  Lemma \<open>version_line_printed\<close> above gives the section and its key on the lines of the
  file instead of the configuration.
\<close>

theorem default_manifest_1_0_0_printed:
  assumes "map_of fs CONFIG_FILE = Some content"
    and "ConfigParser_read_fp content = Inr config"
    and "map_of (sections config) ''package'' = Some sect"
    and \<open>map_of sect ''version'' = Some ''"1.0.0"''\<close>
  shows \<open>main fs [prog] = \<lparr>stdout = ''1.0.0\<newline>'', exit_status = 0, uncaught = None\<rparr>\<close>
proof -
  have \<open>before_get (sect, defaults config) ''"1.0.0"'' = Inr ''"1.0.0"''\<close>
    by (rule before_get_no_percent) simp
  with assms(3,4) have \<open>get_version fs CONFIG_FILE = Inr ''"1.0.0"''\<close>
    by (simp add: get_version_of_config [OF assms(1,2)] chain_lookup_def)
  then show ?thesis
    by (simp add: main_of_get_version py_slice_1_minus_1 LF_def)
qed

theorem default_manifest_1_0_0_printed_witness:
  \<open>main [(CONFIG_FILE, manifest_1_0_0)] [''get_version.py'']
     = \<lparr>stdout = ''1.0.0\<newline>'', exit_status = 0, uncaught = None\<rparr>
   \<and> main [(CONFIG_FILE, manifest_old_mac)] [''get_version.py'']
     = \<lparr>stdout = ''1.0.0\<newline>'', exit_status = 0, uncaught = None\<rparr>\<close>
proof -
  let ?c = \<open>\<lparr>sections = [(''package'', [(''version'', ''"1.0.0"'')])], defaults = []\<rparr>\<close>
  let ?d = \<open>\<lparr>sections = [(''package'', [(''name'', ''"cifra"''), (''version'', ''"1.0.0"'')]),
                         (''dependencies'', [(''rand'', ''"0.8"'')])], defaults = []\<rparr>\<close>
  have a1: \<open>map_of [(CONFIG_FILE, manifest_1_0_0)] CONFIG_FILE = Some manifest_1_0_0\<close>
    by simp
  have a2: \<open>ConfigParser_read_fp manifest_1_0_0 = Inr ?c\<close>
    by code_simp
  have a3: \<open>map_of (sections ?c) ''package'' = Some [(''version'', ''"1.0.0"'')]\<close>
    by simp
  have a4: \<open>map_of [(''version'', ''"1.0.0"'')] ''version'' = Some ''"1.0.0"''\<close>
    by simp
  have b1: \<open>map_of [(CONFIG_FILE, manifest_old_mac)] CONFIG_FILE = Some manifest_old_mac\<close>
    by simp
  have b2: \<open>ConfigParser_read_fp manifest_old_mac = Inr ?d\<close>
    by code_simp
  have b3: \<open>map_of (sections ?d) ''package''
    = Some [(''name'', ''"cifra"''), (''version'', ''"1.0.0"'')]\<close>
    by simp
  have b4: \<open>map_of [(''name'', ''"cifra"''), (''version'', ''"1.0.0"'')] ''version''
    = Some ''"1.0.0"''\<close>
    by simp
  show ?thesis
    using default_manifest_1_0_0_printed [OF a1 a2 a3 a4]
      default_manifest_1_0_0_printed [OF b1 b2 b3 b4]
    by simp
qed

text \<open>
  Claim C6: whatever raw value \<open>v\<close> the call of \<^const>\<open>get_version\<close> made by the program
  returns, the program prints \<open>v\<close> without its first and last character, then a
  newline, and exits with status 0. Two quote characters give an empty line and the
  unquoted \<^verbatim>\<open>1.0.0\<close> gives \<^verbatim>\<open>.0.\<close>, as the evaluation after the theorem shows.
\<close>

theorem main_strips_first_and_last:
  assumes "get_version fs (if length argv > 1 then argv ! 1 else CONFIG_FILE) = Inr v"
  shows "main fs argv = \<lparr>stdout = butlast (tl v) @ [LF], exit_status = 0, uncaught = None\<rparr>"
proof -
  from assms have "get_version fs CONFIG_FILE = Inr v"
    by (simp add: get_version_def)
  then show ?thesis by (simp add: main_of_get_version py_slice_1_minus_1)
qed

theorem main_strips_first_and_last_witness:
  \<open>main [(CONFIG_FILE, manifest_empty_quotes)] [''get_version.py'']
     = \<lparr>stdout = ''\<newline>'', exit_status = 0, uncaught = None\<rparr>
   \<and> main [(CONFIG_FILE, manifest_unquoted)] [''get_version.py'', CONFIG_FILE]
     = \<lparr>stdout = ''.0.\<newline>'', exit_status = 0, uncaught = None\<rparr>\<close>
proof -
  have h1: \<open>get_version [(CONFIG_FILE, manifest_empty_quotes)]
      (if length [''get_version.py''] > 1 then [''get_version.py''] ! 1 else CONFIG_FILE)
    = Inr ''""''\<close>
    by code_simp
  have h2: \<open>get_version [(CONFIG_FILE, manifest_unquoted)]
      (if length [''get_version.py'', CONFIG_FILE] > 1
       then [''get_version.py'', CONFIG_FILE] ! 1 else CONFIG_FILE)
    = Inr ''1.0.0''\<close>
    by code_simp
  show ?thesis
    using main_strips_first_and_last [OF h1] main_strips_first_and_last [OF h2]
    by (simp add: LF_def)
qed

text \<open>
  Claim C7, as stated, fails: the manifest parses, its section \<^verbatim>\<open>package\<close> has no key
  \<^verbatim>\<open>version\<close>, and yet \<^const>\<open>get_version\<close> returns the value that the section
  \<^verbatim>\<open>DEFAULT\<close> gives to \<^verbatim>\<open>version\<close>; the program prints it and exits with status 0.
\<close>

theorem default_section_supplies_version:
  \<open>ConfigParser_read_fp manifest_default_version
     = Inr \<lparr>sections = [(''package'', [(''name'', ''"cifra"'')])],
            defaults = [(''version'', ''"9.9.9"'')]\<rparr>
   \<and> map_of [(''name'', ''"cifra"'')] ''version'' = None
   \<and> get_version [(CONFIG_FILE, manifest_default_version)] CONFIG_FILE = Inr ''"9.9.9"''
   \<and> main [(CONFIG_FILE, manifest_default_version)] [''get_version.py'']
       = \<lparr>stdout = ''9.9.9\<newline>'', exit_status = 0, uncaught = None\<rparr>\<close>
  by code_simp

text \<open>
  Claim C7, amended: for every manifest read by \<^const>\<open>get_version\<close> that parses and
  either has no section \<^verbatim>\<open>package\<close>, or has one without the key \<^verbatim>\<open>version\<close> while
  the section \<^verbatim>\<open>DEFAULT\<close> has no such key either, \<^const>\<open>get_version\<close> fails with
  \<^verbatim>\<open>KeyError\<close> (on the section in the first case, on the key in the second); nothing
  catches it, and the process ends with status 1 and nothing on standard output.
\<close>

theorem missing_key_is_key_error:
  assumes "map_of fs CONFIG_FILE = Some content"
    and "ConfigParser_read_fp content = Inr config"
    and "map_of (sections config) ''package'' = None
       \<or> (\<exists>sect. map_of (sections config) ''package'' = Some sect
             \<and> map_of sect ''version'' = None
             \<and> map_of (defaults config) ''version'' = None)"
  shows "get_version fs p
       = Inl (KeyError (if map_of (sections config) ''package'' = None
                        then ''package'' else ''version''))
     \<and> main fs argv
       = \<lparr>stdout = [], exit_status = 1,
          uncaught = Some (KeyError (if map_of (sections config) ''package'' = None
                                     then ''package'' else ''version''))\<rparr>"
proof -
  have g: "get_version fs q
       = Inl (KeyError (if map_of (sections config) ''package'' = None
                        then ''package'' else ''version''))" for q
    using assms(3)
    by (auto simp: get_version_of_config [OF assms(1,2)] chain_lookup_def)
  show ?thesis using g [of p] g [of CONFIG_FILE] by (simp add: main_of_get_version)
qed

theorem missing_key_is_key_error_witness:
  \<open>get_version [(CONFIG_FILE, manifest_no_package)] CONFIG_FILE = Inl (KeyError ''package'')
   \<and> main [(CONFIG_FILE, manifest_no_package)] [''get_version.py'']
       = \<lparr>stdout = [], exit_status = 1, uncaught = Some (KeyError ''package'')\<rparr>
   \<and> get_version [(CONFIG_FILE, manifest_no_version)] CONFIG_FILE = Inl (KeyError ''version'')
   \<and> main [(CONFIG_FILE, manifest_no_version)] [''get_version.py'']
       = \<lparr>stdout = [], exit_status = 1, uncaught = Some (KeyError ''version'')\<rparr>\<close>
proof -
  let ?c1 = \<open>\<lparr>sections = [(''dependencies'', [(''version'', ''"1.0.0"'')])], defaults = []\<rparr>\<close>
  let ?c2 = \<open>\<lparr>sections = [(''package'', [(''name'', ''"cifra"'')])], defaults = []\<rparr>\<close>
  have a1: \<open>map_of [(CONFIG_FILE, manifest_no_package)] CONFIG_FILE = Some manifest_no_package\<close>
    by simp
  have a2: \<open>ConfigParser_read_fp manifest_no_package = Inr ?c1\<close>
    by code_simp
  have a3: \<open>map_of (sections ?c1) ''package'' = None
       \<or> (\<exists>sect. map_of (sections ?c1) ''package'' = Some sect
             \<and> map_of sect ''version'' = None
             \<and> map_of (defaults ?c1) ''version'' = None)\<close>
    by simp
  have b1: \<open>map_of [(CONFIG_FILE, manifest_no_version)] CONFIG_FILE = Some manifest_no_version\<close>
    by simp
  have b2: \<open>ConfigParser_read_fp manifest_no_version = Inr ?c2\<close>
    by code_simp
  have b3: \<open>map_of (sections ?c2) ''package'' = None
       \<or> (\<exists>sect. map_of (sections ?c2) ''package'' = Some sect
             \<and> map_of sect ''version'' = None
             \<and> map_of (defaults ?c2) ''version'' = None)\<close>
    by simp
  show ?thesis
    using missing_key_is_key_error [OF a1 a2 a3, of CONFIG_FILE "[''get_version.py'']"]
      missing_key_is_key_error [OF b1 b2 b3, of CONFIG_FILE "[''get_version.py'']"]
    by simp
qed

text \<open>
  Claim C8, as stated, fails: the second line of the manifest is neither a header nor an
  option, so the file does not have the expected syntax, but its third line opens the
  section \<^verbatim>\<open>package\<close> again and the read ends there with
  \<^verbatim>\<open>DuplicateSectionError\<close>, which is not a \<^verbatim>\<open>ParsingError\<close>.
\<close>

theorem duplicate_hides_the_parsing_error:
  \<open>\<not> well_formed manifest_reported_then_duplicate
   \<and> get_version [(CONFIG_FILE, manifest_reported_then_duplicate)] CONFIG_FILE
     = Inl (DuplicateSectionError ''package'' 3)
   \<and> \<not> isinstance_ParsingError (DuplicateSectionError ''package'' 3)
   \<and> main [(CONFIG_FILE, manifest_reported_then_duplicate)] [''get_version.py'']
     = \<lparr>stdout = [], exit_status = 1,
        uncaught = Some (DuplicateSectionError ''package'' 3)\<rparr>\<close>
  by code_simp

text \<open>
  Claim C8, amended: for every file read by \<^const>\<open>get_version\<close>, that is
  \<^verbatim>\<open>Cargo.toml\<close> of the working directory, whose content does not have the expected
  syntax, \<^const>\<open>get_version\<close> on that path fails with a \<^verbatim>\<open>ParsingError\<close> (which
  \<^verbatim>\<open>MissingSectionHeaderError\<close> is too), or with the error of a section or an option
  given twice when one ends the read first. Nothing catches the error, and the process,
  run with that path or with no argument, ends with status 1 and nothing on standard
  output.
\<close>

theorem malformed_manifest_fails:
  assumes "map_of fs CONFIG_FILE = Some content"
    and "\<not> well_formed content"
  shows "\<exists>x. get_version fs CONFIG_FILE = Inl x
     \<and> (isinstance_ParsingError x \<or> duplicate_error x)
     \<and> main fs [prog] = \<lparr>stdout = [], exit_status = 1, uncaught = Some x\<rparr>
     \<and> main fs [prog, CONFIG_FILE] = \<lparr>stdout = [], exit_status = 1, uncaught = Some x\<rparr>"
proof -
  from assms(2) obtain x where
    x: "ConfigParser_read_fp content = Inl x" and r: "read_error x"
    using not_well_formed_rejected by blast
  have "get_version fs CONFIG_FILE = Inl x"
    by (simp add: get_version_def read_existing [OF assms(1)] x)
  with r show ?thesis by (auto simp: main_of_get_version read_error_def)
qed

theorem malformed_manifest_fails_witness:
  \<open>(\<exists>x. get_version [(CONFIG_FILE, manifest_no_delimiter_old_mac)] CONFIG_FILE = Inl x
        \<and> (isinstance_ParsingError x \<or> duplicate_error x)
        \<and> main [(CONFIG_FILE, manifest_no_delimiter_old_mac)] [''get_version.py'']
           = \<lparr>stdout = [], exit_status = 1, uncaught = Some x\<rparr>
        \<and> main [(CONFIG_FILE, manifest_no_delimiter_old_mac)] [''get_version.py'', CONFIG_FILE]
           = \<lparr>stdout = [], exit_status = 1, uncaught = Some x\<rparr>)
   \<and> get_version [(CONFIG_FILE, manifest_no_delimiter_old_mac)] CONFIG_FILE
     = Inl (ParsingError [(2, CHR 0x27 # ''  version  '' @ [CHR 0x5C, CHR ''n'', CHR 0x27])])
   \<and> (\<exists>x. get_version [(CONFIG_FILE, manifest_no_header)] CONFIG_FILE = Inl x
        \<and> (isinstance_ParsingError x \<or> duplicate_error x)
        \<and> main [(CONFIG_FILE, manifest_no_header)] [''get_version.py'']
           = \<lparr>stdout = [], exit_status = 1, uncaught = Some x\<rparr>
        \<and> main [(CONFIG_FILE, manifest_no_header)] [''get_version.py'', CONFIG_FILE]
           = \<lparr>stdout = [], exit_status = 1, uncaught = Some x\<rparr>)
   \<and> get_version [(CONFIG_FILE, manifest_no_header)] CONFIG_FILE
     = Inl (MissingSectionHeaderError 1 ''version = "1.0.0"\<newline>'')\<close>
proof -
  have a1: \<open>map_of [(CONFIG_FILE, manifest_no_delimiter_old_mac)] CONFIG_FILE
    = Some manifest_no_delimiter_old_mac\<close>
    by simp
  have a2: \<open>\<not> well_formed manifest_no_delimiter_old_mac\<close>
    by code_simp
  have a3: \<open>get_version [(CONFIG_FILE, manifest_no_delimiter_old_mac)] CONFIG_FILE
     = Inl (ParsingError [(2, CHR 0x27 # ''  version  '' @ [CHR 0x5C, CHR ''n'', CHR 0x27])])\<close>
    by code_simp
  have b1: \<open>map_of [(CONFIG_FILE, manifest_no_header)] CONFIG_FILE = Some manifest_no_header\<close>
    by simp
  have b2: \<open>\<not> well_formed manifest_no_header\<close>
    by code_simp
  have b3: \<open>get_version [(CONFIG_FILE, manifest_no_header)] CONFIG_FILE
     = Inl (MissingSectionHeaderError 1 ''version = "1.0.0"\<newline>'')\<close>
    by code_simp
  show ?thesis
    using malformed_manifest_fails [OF a1 a2, of "''get_version.py''"]
      malformed_manifest_fails [OF b1 b2, of "''get_version.py''"] a3 b3
    by blast
qed

text \<open>
  Claim C9: two runs with the same argument list against an unchanged manifest end the
  same way. The code reads \<^const>\<open>CONFIG_FILE\<close> and not the manifest that the argument
  names: with the same argument and the same manifest at \<^verbatim>\<open>release/Cargo.toml\<close>, a run
  in a working directory without \<^verbatim>\<open>Cargo.toml\<close> ends with \<^verbatim>\<open>KeyError\<close>, status 1
  and no output, and a run after a \<^verbatim>\<open>Cargo.toml\<close> of version 1.0.0 has appeared there
  prints \<^verbatim>\<open>1.0.0\<close> and exits with status 0.
\<close>

theorem same_manifest_different_runs:
  \<open>map_of [(''release/Cargo.toml'', manifest_alpha)] ''release/Cargo.toml''
     = map_of [(''release/Cargo.toml'', manifest_alpha), (CONFIG_FILE, manifest_1_0_0)]
         ''release/Cargo.toml''
   \<and> main [(''release/Cargo.toml'', manifest_alpha)]
       [''get_version.py'', ''release/Cargo.toml'']
     = \<lparr>stdout = [], exit_status = 1, uncaught = Some (KeyError ''package'')\<rparr>
   \<and> main [(''release/Cargo.toml'', manifest_alpha), (CONFIG_FILE, manifest_1_0_0)]
       [''get_version.py'', ''release/Cargo.toml'']
     = \<lparr>stdout = ''1.0.0\<newline>'', exit_status = 0, uncaught = None\<rparr>\<close>
  by code_simp

text \<open>
  Claim C10: for a raw value of length 0 or 1 the slice raises nothing: the program
  prints an empty line and exits with status 0.
\<close>

theorem short_version_prints_empty_line:
  assumes "get_version fs (if length argv > 1 then argv ! 1 else CONFIG_FILE) = Inr v"
    and "length v \<le> 1"
  shows "main fs argv = \<lparr>stdout = [LF], exit_status = 0, uncaught = None\<rparr>"
proof -
  from assms(1) have g: "get_version fs CONFIG_FILE = Inr v"
    by (simp add: get_version_def)
  from assms(2) have "py_slice v 1 (- 1) = []"
    by (cases v) (simp_all add: py_slice_def slice_index_def)
  with g show ?thesis by (simp add: main_of_get_version)
qed

theorem short_version_prints_empty_line_witness:
  \<open>main [(CONFIG_FILE, manifest_no_value)] [''get_version.py'']
     = \<lparr>stdout = [LF], exit_status = 0, uncaught = None\<rparr>
   \<and> main [(CONFIG_FILE, manifest_one_char)] [''get_version.py'']
     = \<lparr>stdout = [LF], exit_status = 0, uncaught = None\<rparr>\<close>
proof -
  have h1: \<open>get_version [(CONFIG_FILE, manifest_no_value)]
      (if length [''get_version.py''] > 1 then [''get_version.py''] ! 1 else CONFIG_FILE)
    = Inr ''''\<close>
    by code_simp
  have h2: \<open>get_version [(CONFIG_FILE, manifest_one_char)]
      (if length [''get_version.py''] > 1 then [''get_version.py''] ! 1 else CONFIG_FILE)
    = Inr ''7''\<close>
    by code_simp
  have l1: \<open>length '''' \<le> (1::nat)\<close> by simp
  have l2: \<open>length ''7'' \<le> (1::nat)\<close> by simp
  show ?thesis
    using short_version_prints_empty_line [OF h1 l1] short_version_prints_empty_line [OF h2 l2]
    by simp
qed

end
